theory Spec2Isabelle
  imports Main
begin

section \<open>Values, errors and the built-in operations the program uses\<close>

text \<open>
  The program is the class \<open>USDTBalanceSeedPhraseRecovery\<close> of \<open>diagnose.js\<close>. A word is a
  JavaScript string. A candidate seed phrase is an array whose elements are words or
  \<open>undefined\<close> (what an out-of-range read of \<open>wordList\<close> gives): \<open>None\<close> is
  \<open>undefined\<close>. A BigInt is an \<open>int\<close>. An exception is a value of \<open>error\<close>.
\<close>

type_synonym word = string

type_synonym candidate = "word option list"

datatype error = Error string | RangeError | TypeError | SyntaxError

text \<open>
  BigInt division truncates towards zero and the remainder has the sign of the dividend;
  both throw a RangeError on a zero divisor, and so does \<open>**\<close> on a negative exponent.
\<close>

definition bigint_div :: "int \<Rightarrow> int \<Rightarrow> error + int" where
  "bigint_div a b =
     (if b = 0 then Inl RangeError else Inr (sgn a * sgn b * (\<bar>a\<bar> div \<bar>b\<bar>)))"

definition bigint_rem :: "int \<Rightarrow> int \<Rightarrow> error + int" where
  "bigint_rem a b = (if b = 0 then Inl RangeError else Inr (sgn a * (\<bar>a\<bar> mod \<bar>b\<bar>)))"

definition bigint_pow :: "int \<Rightarrow> int \<Rightarrow> error + int" where
  "bigint_pow b e = (if e < 0 then Inl RangeError else Inr (b ^ nat e))"

text \<open>\<open>xs[i]\<close>: \<open>undefined\<close> outside the array.\<close>

definition array_get :: "'a list \<Rightarrow> int \<Rightarrow> 'a option" where
  "array_get xs i = (if 0 \<le> i \<and> i < int (length xs) then Some (xs ! nat i) else None)"

text \<open>
  \<open>xs.splice(start, 0, x)\<close>: insert \<open>x\<close> before index \<open>start\<close>. A start beyond the
  end is the end; a negative start counts from the end and stops at 0.
\<close>

definition splice_insert :: "'a list \<Rightarrow> int \<Rightarrow> 'a \<Rightarrow> 'a list" where
  "splice_insert xs start x =
     (let len = int (length xs);
          k = (if start < 0 then max (len + start) 0 else min start len)
      in take (nat k) xs @ x # drop (nat k) xs)"

text \<open>\<open>xs.join(sep)\<close> on an array of strings.\<close>

fun join :: "string \<Rightarrow> string list \<Rightarrow> string" where
  "join sep [] = []"
| "join sep [x] = x"
| "join sep (x # y # ys) = x @ sep @ join sep (y # ys)"

text \<open>In \<open>join\<close> an \<open>undefined\<close> element of a candidate prints as the empty string.\<close>

definition candidate_join :: "string \<Rightarrow> candidate \<Rightarrow> string" where
  "candidate_join sep c = join sep (map (\<lambda>w. case w of None \<Rightarrow> [] | Some s \<Rightarrow> s) c)"

section \<open>The recovery object\<close>

text \<open>
  The fields of \<open>this\<close> that the methods read or write. The two file paths, the RPC
  provider and the contract handle are part of the environment below; the two interval
  constants are written where they are used. \<open>missingPositions\<close> holds integers
  (1-based positions). \<open>startTime\<close> and \<open>combinationCount\<close> are \<open>null\<close> (\<open>None\<close>)
  until \<open>initialize\<close> sets them.
\<close>

record recovery =
  knownWords :: "word list"
  missingPositions :: "int list"
  totalAttempts :: int
  validAttempts :: int
  wordList :: "word list"
  startTime :: "int option"
  combinationCount :: "int option"
  foundValidPhrases :: "string list"
  lastCheckpointTime :: int
  attemptedCombinations :: "int set"

subsection \<open>generateCombination\<close>

text \<open>
  The callback of \<open>missingPositions.forEach((pos, index) => ...)\<close>, run over the
  positions still to visit. \<open>wl\<close> is \<open>this.wordList\<close>, \<open>m\<close> is
  \<open>this.missingPositions.length\<close>, \<open>ci\<close> is \<open>combinationIndex\<close>. The word index is
  below the array length, so \<open>Number(...)\<close> of it is exact.
\<close>

fun forEach_missing ::
  "word list \<Rightarrow> int \<Rightarrow> int \<Rightarrow> int list \<Rightarrow> int \<Rightarrow> candidate \<Rightarrow> error + candidate" where
  "forEach_missing wl ci m [] index cand = Inr cand"
| "forEach_missing wl ci m (pos # rest) index cand =
     (let wordListLength = int (length wl) in
      case bigint_pow wordListLength (m - 1 - index) of
        Inl e \<Rightarrow> Inl e
      | Inr p \<Rightarrow>
          (case bigint_div ci p of
             Inl e \<Rightarrow> Inl e
           | Inr q \<Rightarrow>
               (case bigint_rem q wordListLength of
                  Inl e \<Rightarrow> Inl e
                | Inr wordIndex \<Rightarrow>
                    forEach_missing wl ci m rest (index + 1)
                      (splice_insert cand (pos - 1) (array_get wl wordIndex)))))"

definition generateCombination :: "recovery \<Rightarrow> int \<Rightarrow> error + candidate" where
  "generateCombination r combinationIndex =
     forEach_missing (wordList r) combinationIndex (int (length (missingPositions r)))
       (missingPositions r) 0 (map Some (knownWords r))"

subsection \<open>isValidBIP39Phrase\<close>

text \<open>
  \<open>seedPhrase.every(word => this.wordList.includes(word))\<close>. The word list holds
  strings only, so \<open>includes(undefined)\<close> is false.
\<close>

definition isValidBIP39Phrase :: "recovery \<Rightarrow> candidate \<Rightarrow> bool" where
  "isValidBIP39Phrase r seedPhrase =
     list_all (\<lambda>w. case w of None \<Rightarrow> False | Some s \<Rightarrow> s \<in> set (wordList r)) seedPhrase"

section \<open>The specification's template and its mixed-radix decoding\<close>

text \<open>
  The specification describes the input as a template of fixed and free slots. The
  program receives the same information as \<open>knownWords\<close> (the fixed tokens in order) and
  \<open>missingPositions\<close> (the 1-based positions of the free slots, ascending), as in
  \<open>main\<close>: ten known words and the positions 10 and 12 for a phrase of twelve.
\<close>

datatype slot = Fixed word | Free

fun fixedTokens :: "slot list \<Rightarrow> word list" where
  "fixedTokens [] = []"
| "fixedTokens (Fixed t # ss) = t # fixedTokens ss"
| "fixedTokens (Free # ss) = fixedTokens ss"

text \<open>The positions of the free slots, the first slot of the list being at position \<open>p\<close>.\<close>

fun freePositions :: "int \<Rightarrow> slot list \<Rightarrow> int list" where
  "freePositions p [] = []"
| "freePositions p (Fixed t # ss) = freePositions (p + 1) ss"
| "freePositions p (Free # ss) = p # freePositions (p + 1) ss"

fun freeCount :: "slot list \<Rightarrow> nat" where
  "freeCount [] = 0"
| "freeCount (Fixed t # ss) = freeCount ss"
| "freeCount (Free # ss) = Suc (freeCount ss)"

text \<open>
  The specification's digit \<open>i\<close> of an index, with \<open>V\<close> the vocabulary size and \<open>M\<close>
  the number of free slots: \<open>floor(index / V^(M-1-i)) mod V\<close>.
\<close>

definition spec_digit :: "nat \<Rightarrow> nat \<Rightarrow> int \<Rightarrow> nat \<Rightarrow> nat" where
  "spec_digit V M index i = nat ((index div int V ^ (M - 1 - i)) mod int V)"

text \<open>
  The specification's decoding, written from its words: fixed slots are copied, the
  \<open>i\<close>-th free slot receives \<open>Vocabulary[digit i]\<close>. \<open>i\<close> counts the free slots
  already passed.
\<close>

fun spec_encode :: "word list \<Rightarrow> nat \<Rightarrow> int \<Rightarrow> nat \<Rightarrow> slot list \<Rightarrow> word list" where
  "spec_encode voc M index i [] = []"
| "spec_encode voc M index i (Fixed t # ss) = t # spec_encode voc M index i ss"
| "spec_encode voc M index i (Free # ss) =
     voc ! spec_digit (length voc) M index i # spec_encode voc M index (Suc i) ss"

section \<open>Numbers and the text form of a BigInt\<close>

subsection \<open>Number exponentiation and \<open>BigInt(number)\<close>\<close>

text \<open>
  \<open>initialize\<close> computes \<open>BigInt(this.wordList.length ** this.missingPositions.length)\<close>:
  both operands are Numbers, so \<open>**\<close> is the exponentiation of IEEE 754 doubles and only
  its result is converted to a BigInt. A double holds 53 significant bits. The model
  rounds the exact power to the nearest double, ties to even; \<open>None\<close> is \<open>Infinity\<close>
  (from \<open>2^1024\<close> on), for which \<open>BigInt(...)\<close> throws a RangeError. Only non-negative
  integers occur here.
\<close>

fun bit_length :: "nat \<Rightarrow> nat" where
  "bit_length n = (if n = 0 then 0 else Suc (bit_length (n div 2)))"

declare bit_length.simps [simp del]

definition round_to_double :: "nat \<Rightarrow> nat option" where
  "round_to_double n =
     (if bit_length n \<le> 53 then Some n
      else
        let e = bit_length n - 53;
            q = n div 2 ^ e;
            rest = n mod 2 ^ e;
            half = 2 ^ (e - 1);
            m = (if half < rest \<or> (rest = half \<and> odd q) then q + 1 else q)
        in if 2 ^ 1024 \<le> m * 2 ^ e then None else Some (m * 2 ^ e))"

text \<open>A non-negative integer is a double when rounding leaves it as it is.\<close>

definition is_double :: "nat \<Rightarrow> bool" where
  "is_double n = (round_to_double n = Some n)"

definition number_pow :: "nat \<Rightarrow> nat \<Rightarrow> nat option" where
  "number_pow b e = round_to_double (b ^ e)"

text \<open>Line 174: \<open>V\<close> is \<open>this.wordList.length\<close>, \<open>M\<close> is \<open>this.missingPositions.length\<close>.\<close>

definition computeCombinationCount :: "nat \<Rightarrow> nat \<Rightarrow> error + int" where
  "computeCombinationCount V M =
     (case number_pow V M of None \<Rightarrow> Inl RangeError | Some d \<Rightarrow> Inr (int d))"

subsection \<open>\<open>BigInt.prototype.toString\<close> and \<open>BigInt(string)\<close>\<close>

definition digit_char :: "nat \<Rightarrow> char" where
  "digit_char d = ''0123456789'' ! d"

fun string_of_nat :: "nat \<Rightarrow> string" where
  "string_of_nat n =
     (if n < 10 then [digit_char n] else string_of_nat (n div 10) @ [digit_char (n mod 10)])"

declare string_of_nat.simps [simp del]

definition bigint_toString :: "int \<Rightarrow> string" where
  "bigint_toString i =
     (if i < 0 then CHR ''-'' # string_of_nat (nat (- i)) else string_of_nat (nat i))"

text \<open>
  \<open>BigInt(s)\<close> follows StringToBigInt: surrounding white space is dropped; the empty
  string is 0; a decimal literal may carry a sign; \<open>0x\<close>, \<open>0o\<close> and \<open>0b\<close> literals
  carry none; anything else is a SyntaxError. White space is the ASCII white space (a
  \<open>char\<close> is a byte).
\<close>

definition is_ws :: "char \<Rightarrow> bool" where
  "is_ws c = (c \<in> set [CHR 0x20, CHR 0x09, CHR 0x0A, CHR 0x0B, CHR 0x0C, CHR 0x0D])"

definition trim :: "string \<Rightarrow> string" where
  "trim s = rev (dropWhile is_ws (rev (dropWhile is_ws s)))"

definition digit_value :: "char \<Rightarrow> nat option" where
  "digit_value c =
     (let k = (of_char c :: nat) in
      if 48 \<le> k \<and> k \<le> 57 then Some (k - 48)
      else if 97 \<le> k \<and> k \<le> 102 then Some (k - 87)
      else if 65 \<le> k \<and> k \<le> 70 then Some (k - 55)
      else None)"

fun parse_digits :: "nat \<Rightarrow> nat \<Rightarrow> string \<Rightarrow> nat option" where
  "parse_digits base acc [] = Some acc"
| "parse_digits base acc (c # cs) =
     (case digit_value c of
        None \<Rightarrow> None
      | Some d \<Rightarrow> if d < base then parse_digits base (acc * base + d) cs else None)"

definition parse_literal :: "nat \<Rightarrow> string \<Rightarrow> nat option" where
  "parse_literal base ds = (if ds = [] then None else parse_digits base 0 ds)"

definition StringToBigInt :: "string \<Rightarrow> int option" where
  "StringToBigInt str =
     (let s = trim str in
      if s = [] then Some 0
      else if take 2 s \<in> set [''0x'', ''0X''] then map_option int (parse_literal 16 (drop 2 s))
      else if take 2 s \<in> set [''0o'', ''0O''] then map_option int (parse_literal 8 (drop 2 s))
      else if take 2 s \<in> set [''0b'', ''0B''] then map_option int (parse_literal 2 (drop 2 s))
      else if hd s = CHR ''+'' then map_option int (parse_literal 10 (tl s))
      else if hd s = CHR ''-'' then map_option (\<lambda>n. - int n) (parse_literal 10 (tl s))
      else map_option int (parse_literal 10 s))"

definition BigInt_of_string :: "string \<Rightarrow> error + int" where
  "BigInt_of_string s = (case StringToBigInt s of None \<Rightarrow> Inl SyntaxError | Some n \<Rightarrow> Inr n)"

section \<open>Files, clock and the external check\<close>

text \<open>
  The checkpoint file holds the object \<open>saveCheckpoint\<close> writes with
  \<open>JSON.stringify\<close>; \<open>JSON.parse\<close> gives the same object back (strings, integers,
  \<open>null\<close> and an array of strings), so the file is modelled by that object.
\<close>

record checkpointData =
  cp_totalAttempts :: string
  cp_validAttempts :: int
  cp_foundValidPhrases :: "string list"
  cp_startTime :: "int option"
  cp_timestamp :: int

text \<open>
  The log file (the ledger) is the header \<open>prepareLogFile\<close> writes, which ends with the
  line \<open># ATTEMPTED_COMBINATIONS_START\<close>, followed by the lines appended after it: an
  attempted index (\<open>logAttemptedCombination\<close>) or a match (\<open>logSeedPhraseAttempt\<close>,
  a timestamp and the mnemonic). A file that \<open>appendFile\<close> created has no header.
\<close>

record ledgerHeader =
  hdrStartedAt :: int
  hdrKnownWords :: "word list"
  hdrMissingPositions :: "int list"
  hdrCombinationCount :: int
  hdrWordListSize :: nat

datatype ledgerLine = AttemptLine int | MatchLine int string

record ledger =
  ledgerHead :: "ledgerHeader option"
  ledgerLines :: "ledgerLine list"

text \<open>
  What the program does not control: the word list that \<open>wordListPromise\<close> resolves to
  (\<open>[]\<close> when \<open>english.txt\<close> cannot be read), which file system calls fail (by their
  number in the run), what the clock shows at each reading, and the external check of a
  mnemonic at each call: deriving the wallet with \<open>ethers.Wallet.fromPhrase\<close>, reading its
  USDT balance and comparing it with 100. \<open>None\<close> is an exception from any of these.
\<close>

record env =
  wordListFile :: "word list"
  ioFails :: "nat \<Rightarrow> bool"
  clock :: "nat \<Rightarrow> int"
  externalCheck :: "nat \<Rightarrow> string \<Rightarrow> bool option"

text \<open>
  The trace lists, in order, every write to the ledger the program reaches (with whether
  the file was written) and every call of \<open>validateSeedPhrase\<close> from the enumeration
  loop (with the index of the candidate, and whether the ledger file holds a record of
  that index at the moment of the call). It records what happened and is never read by
  the program.
\<close>

datatype event =
    LedgerHeader bool
  | LedgerAttempt int bool
  | LedgerMatch bool
  | Validate int bool

record world =
  logFile :: "ledger option"
  checkpointFile :: "checkpointData option"
  ioCount :: nat
  clockReads :: nat
  checkCalls :: nat
  trace :: "event list"

text \<open>
  A file system call: \<open>io_fails\<close> says whether this call fails, \<open>io_tick\<close> counts it.
\<close>

definition io_fails :: "env \<Rightarrow> world \<Rightarrow> bool" where
  "io_fails env w = ioFails env (ioCount w)"

definition io_tick :: "world \<Rightarrow> world" where
  "io_tick w = w\<lparr>ioCount := Suc (ioCount w)\<rparr>"

text \<open>
  \<open>Date.now()\<close> and \<open>new Date()\<close>: \<open>date_now\<close> is the value read, \<open>clock_tick\<close> the
  world after the reading. Readings that only feed \<open>console.log\<close> are left out.
\<close>

definition date_now :: "env \<Rightarrow> world \<Rightarrow> int" where
  "date_now env w = clock env (clockReads w)"

definition clock_tick :: "world \<Rightarrow> world" where
  "clock_tick w = w\<lparr>clockReads := Suc (clockReads w)\<rparr>"

definition emit :: "event \<Rightarrow> world \<Rightarrow> world" where
  "emit ev w = w\<lparr>trace := trace w @ [ev]\<rparr>"

text \<open>The indices recorded in the ledger file, in order.\<close>

fun attempt_indices :: "ledgerLine list \<Rightarrow> int list" where
  "attempt_indices [] = []"
| "attempt_indices (AttemptLine i # ls) = i # attempt_indices ls"
| "attempt_indices (MatchLine t m # ls) = attempt_indices ls"

definition ledger_indices :: "world \<Rightarrow> int list" where
  "ledger_indices w =
     (case logFile w of None \<Rightarrow> [] | Some f \<Rightarrow> attempt_indices (ledgerLines f))"

text \<open>\<open>fs.appendFile\<close> creates the file when it is missing.\<close>

definition ledger_append :: "ledger option \<Rightarrow> ledgerLine \<Rightarrow> ledger" where
  "ledger_append f l =
     (case f of
        None \<Rightarrow> \<lparr>ledgerHead = None, ledgerLines = [l]\<rparr>
      | Some g \<Rightarrow> g\<lparr>ledgerLines := ledgerLines g @ [l]\<rparr>)"

section \<open>The methods that touch the world\<close>

subsection \<open>saveCheckpoint and loadCheckpoint\<close>

text \<open>
  \<open>saveCheckpoint\<close> builds the object (reading the clock for \<open>timestamp\<close>) and writes
  it over the checkpoint file; a failed write is caught and logged.
\<close>

definition saveCheckpoint :: "env \<Rightarrow> recovery \<Rightarrow> world \<Rightarrow> world" where
  "saveCheckpoint env r w =
     (let checkpointData =
            \<lparr>cp_totalAttempts = bigint_toString (totalAttempts r),
             cp_validAttempts = validAttempts r,
             cp_foundValidPhrases = foundValidPhrases r,
             cp_startTime = startTime r,
             cp_timestamp = date_now env w\<rparr>;
          w1 = clock_tick w
      in if io_fails env w1 then io_tick w1
         else (io_tick w1)\<lparr>checkpointFile := Some checkpointData\<rparr>)"

text \<open>
  \<open>loadCheckpoint\<close>: \<open>fs.access\<close> decides whether the file exists (a failure is "no");
  then the file is read and \<open>totalAttempts\<close> is parsed first, so an exception from the
  read or from \<open>BigInt(...)\<close> leaves every field as it was. The result is the returned
  boolean.
\<close>

definition loadCheckpoint :: "env \<Rightarrow> recovery \<Rightarrow> world \<Rightarrow> bool \<times> recovery \<times> world" where
  "loadCheckpoint env r w =
     (let checkpointExists = (\<not> io_fails env w \<and> checkpointFile w \<noteq> None);
          w1 = io_tick w
      in if checkpointExists then
           (if io_fails env w1 then (False, r, io_tick w1)
            else
              case checkpointFile w1 of
                None \<Rightarrow> (False, r, io_tick w1)
              | Some checkpointData \<Rightarrow>
                  (case BigInt_of_string (cp_totalAttempts checkpointData) of
                     Inl e \<Rightarrow> (False, r, io_tick w1)
                   | Inr n \<Rightarrow>
                       (True,
                        r\<lparr>totalAttempts := n,
                          validAttempts := cp_validAttempts checkpointData,
                          foundValidPhrases := cp_foundValidPhrases checkpointData,
                          startTime := cp_startTime checkpointData\<rparr>,
                        io_tick w1)))
         else (False, r, w1))"

subsection \<open>The constructor and initialize\<close>

definition constructor :: "env \<Rightarrow> word list \<Rightarrow> int list \<Rightarrow> world \<Rightarrow> recovery \<times> world" where
  "constructor env kw mp w =
     (\<lparr>knownWords = kw, missingPositions = mp, totalAttempts = 0, validAttempts = 0,
       wordList = [], startTime = None, combinationCount = None, foundValidPhrases = [],
       lastCheckpointTime = date_now env w, attemptedCombinations = {}\<rparr>,
      clock_tick w)"

text \<open>
  \<open>initialize\<close> returns the exception it throws, if any, with the object and the world
  as they are then. \<open>!this.startTime\<close> holds for \<open>null\<close> and for 0.
\<close>

definition initialize :: "env \<Rightarrow> recovery \<Rightarrow> world \<Rightarrow> error option \<times> recovery \<times> world" where
  "initialize env r w =
     (let r1 = r\<lparr>wordList := wordListFile env\<rparr> in
      if length (wordList r1) = 0 then
        (Some (Error ''Failed to load word list. Ensure english.txt is present.''), r1, w)
      else
        let invalidWords = filter (\<lambda>word. word \<notin> set (wordList r1)) (knownWords r1) in
        if length invalidWords > 0 then
          (Some (Error (''Invalid words in known words: '' @ join '', '' invalidWords)), r1, w)
        else
          case computeCombinationCount (length (wordList r1)) (length (missingPositions r1)) of
            Inl e \<Rightarrow> (Some e, r1, w)
          | Inr n \<Rightarrow>
              (case loadCheckpoint env (r1\<lparr>combinationCount := Some n\<rparr>) w of
                 (loadedCheckpoint, r2, w2) \<Rightarrow>
                   if startTime r2 = None \<or> startTime r2 = Some 0 then
                     (None, r2\<lparr>startTime := Some (date_now env w2)\<rparr>, clock_tick w2)
                   else (None, r2, w2)))"

subsection \<open>validateSeedPhrase\<close>

text \<open>
  The local check first; then the external check of the joined mnemonic. Every exception
  is caught and gives \<open>false\<close>.
\<close>

definition validateSeedPhrase :: "env \<Rightarrow> recovery \<Rightarrow> candidate \<Rightarrow> world \<Rightarrow> bool \<times> world" where
  "validateSeedPhrase env r seedPhrase w =
     (if \<not> isValidBIP39Phrase r seedPhrase then (False, w)
      else
        let mnemonic = candidate_join '' '' seedPhrase;
            w1 = w\<lparr>checkCalls := Suc (checkCalls w)\<rparr>
        in case externalCheck env (checkCalls w) mnemonic of
             None \<Rightarrow> (False, w1)
           | Some balanceAbove100 \<Rightarrow> (balanceAbove100, w1))"

subsection \<open>The ledger\<close>

text \<open>
  \<open>prepareLogFile\<close> builds the header (reading the clock; \<open>toLocaleString\<close> of a
  \<open>null\<close> \<open>combinationCount\<close> is a TypeError) and writes it with \<open>fs.writeFile\<close>,
  which replaces the whole file. Every exception is caught and logged.
\<close>

definition prepareLogFile :: "env \<Rightarrow> recovery \<Rightarrow> world \<Rightarrow> world" where
  "prepareLogFile env r w =
     (let startedAt = date_now env w;
          w1 = clock_tick w
      in case combinationCount r of
           None \<Rightarrow> emit (LedgerHeader False) w1
         | Some n \<Rightarrow>
             if io_fails env w1 then emit (LedgerHeader False) (io_tick w1)
             else
               emit (LedgerHeader True)
                 ((io_tick w1)\<lparr>logFile :=
                    Some \<lparr>ledgerHead =
                            Some \<lparr>hdrStartedAt = startedAt,
                                  hdrKnownWords = knownWords r,
                                  hdrMissingPositions = missingPositions r,
                                  hdrCombinationCount = n,
                                  hdrWordListSize = length (wordList r)\<rparr>,
                          ledgerLines = []\<rparr>\<rparr>))"

text \<open>
  \<open>BigInt(line.trim())\<close> on a line of the ledger: an attempt line is the decimal text of
  its index; a match line (\<open>... | Valid: true | Mnemonic: ...\<close>) is no integer literal and
  throws a SyntaxError, which ends the whole \<open>map\<close>.
\<close>

fun parse_ledger_lines :: "ledgerLine list \<Rightarrow> int list option" where
  "parse_ledger_lines [] = Some []"
| "parse_ledger_lines (AttemptLine n # ls) = map_option (\<lambda>ns. n # ns) (parse_ledger_lines ls)"
| "parse_ledger_lines (MatchLine t m # ls) = None"

text \<open>
  \<open>loadAttemptedCombinations\<close> reads the file and takes what follows the marker line.
  A missing file, a file without marker, an empty section (the empty string is falsy)
  and a line that does not parse all leave \<open>attemptedCombinations\<close> as it was.
\<close>

definition loadAttemptedCombinations :: "env \<Rightarrow> recovery \<Rightarrow> world \<Rightarrow> recovery \<times> world" where
  "loadAttemptedCombinations env r w =
     (let w1 = io_tick w in
      if io_fails env w then (r, w1)
      else
        case logFile w of
          None \<Rightarrow> (r, w1)
        | Some logContent \<Rightarrow>
            (case ledgerHead logContent of
               None \<Rightarrow> (r, w1)
             | Some h \<Rightarrow>
                 if ledgerLines logContent = [] then (r, w1)
                 else
                   (case parse_ledger_lines (ledgerLines logContent) of
                      None \<Rightarrow> (r, w1)
                    | Some attemptedLines \<Rightarrow>
                        (r\<lparr>attemptedCombinations := set attemptedLines\<rparr>, w1))))"

text \<open>
  \<open>logAttemptedCombination\<close>: the append comes first; the in-memory set is updated only
  when it succeeded. A failed append is caught and logged.
\<close>

definition logAttemptedCombination ::
  "env \<Rightarrow> int \<Rightarrow> recovery \<Rightarrow> world \<Rightarrow> recovery \<times> world" where
  "logAttemptedCombination env combinationIndex r w =
     (let w1 = io_tick w in
      if io_fails env w then (r, emit (LedgerAttempt combinationIndex False) w1)
      else
        (r\<lparr>attemptedCombinations := insert combinationIndex (attemptedCombinations r)\<rparr>,
         emit (LedgerAttempt combinationIndex True)
           (w1\<lparr>logFile := Some (ledger_append (logFile w1) (AttemptLine combinationIndex))\<rparr>)))"

definition logSeedPhraseAttempt ::
  "env \<Rightarrow> candidate \<Rightarrow> bool \<Rightarrow> recovery \<Rightarrow> world \<Rightarrow> recovery \<times> world" where
  "logSeedPhraseAttempt env seedPhrase isValid r w =
     (if isValid then
        let stamp = date_now env w;
            w1 = clock_tick w;
            w2 = io_tick w1
        in if io_fails env w1 then (r, emit (LedgerMatch False) w2)
           else
             (r\<lparr>foundValidPhrases := foundValidPhrases r @ [candidate_join '' '' seedPhrase],
                validAttempts := validAttempts r + 1\<rparr>,
              emit (LedgerMatch True)
                (w2\<lparr>logFile :=
                   Some (ledger_append (logFile w2)
                           (MatchLine stamp (candidate_join '' '' seedPhrase)))\<rparr>))
      else (r, w))"

subsection \<open>The enumeration loop of findValidSeedPhrases\<close>

text \<open>
  One pass through the body of the \<open>for\<close> loop at index \<open>combinationIndex\<close>. The
  progress report only prints, but \<open>this.combinationCount.toLocaleString()\<close> in it is a
  TypeError when \<open>combinationCount\<close> is \<open>null\<close>, and nothing catches it. The intervals
  are \<open>LOGGING_INTERVAL = 100000\<close> attempts and \<open>CHECKPOINT_INTERVAL = 300000\<close> ms.
\<close>

definition loopBody :: "env \<Rightarrow> int \<Rightarrow> recovery \<Rightarrow> world \<Rightarrow> error option \<times> recovery \<times> world" where
  "loopBody env combinationIndex r w =
     (if combinationIndex \<in> attemptedCombinations r then
        (None, r\<lparr>totalAttempts := combinationIndex + 1\<rparr>, w)
      else
        let r1 = r\<lparr>totalAttempts := combinationIndex + 1\<rparr> in
        case generateCombination r1 combinationIndex of
          Inl e \<Rightarrow> (Some e, r1, w)
        | Inr candidateSeedPhrase \<Rightarrow>
            (case logAttemptedCombination env combinationIndex r1 w of
               (r2, w2) \<Rightarrow>
                 (case validateSeedPhrase env r2 candidateSeedPhrase
                         (emit (Validate combinationIndex
                                  (combinationIndex \<in> set (ledger_indices w2))) w2) of
                    (isValid, w3) \<Rightarrow>
                      (case (if isValid
                             then logSeedPhraseAttempt env candidateSeedPhrase isValid r2 w3
                             else (r2, w3)) of
                         (r4, w4) \<Rightarrow>
                           if totalAttempts r4 mod 100000 = 0 \<and> combinationCount r4 = None
                           then (Some TypeError, r4, w4)
                           else
                             let currentTime = date_now env w4;
                                 w5 = clock_tick w4
                             in if currentTime - lastCheckpointTime r4 \<ge> 300000
                                then (None, r4\<lparr>lastCheckpointTime := currentTime\<rparr>,
                                      saveCheckpoint env r4 w5)
                                else (None, r4, w5)))))"

text \<open>
  The loop condition \<open>combinationIndex < this.combinationCount\<close>: a \<open>null\<close> count
  compares as 0.
\<close>

definition loopBound :: "recovery \<Rightarrow> int" where
  "loopBound r = (case combinationCount r of None \<Rightarrow> 0 | Some n \<Rightarrow> n)"

text \<open>The body never assigns \<open>combinationCount\<close>, so the bound of the loop is fixed.\<close>

lemma loopBody_loopBound:
  "loopBody env ci r w = (res, r', w') \<Longrightarrow> loopBound r' = loopBound r"
  by (auto simp: loopBody_def loopBound_def Let_def logAttemptedCombination_def
      logSeedPhraseAttempt_def validateSeedPhrase_def
      split: if_splits sum.splits prod.splits option.splits)

function enumerationLoop ::
  "env \<Rightarrow> int \<Rightarrow> recovery \<Rightarrow> world \<Rightarrow> error option \<times> recovery \<times> world" where
  "enumerationLoop env combinationIndex r w =
     (if combinationIndex < loopBound r then
        (case loopBody env combinationIndex r w of
           (Some e, r', w') \<Rightarrow> (Some e, r', w')
         | (None, r', w') \<Rightarrow> enumerationLoop env (combinationIndex + 1) r' w')
      else (None, r, w))"
  by pat_completeness auto
termination
proof (relation "measure (\<lambda>(env, ci, r, w). nat (loopBound r - ci))", goal_cases)
  case 1
  then show ?case by simp
next
  case (2 env ci r w x1 x2 x1a x2a)
  then have "loopBody env ci r w = (None, x1a, x2a)" by simp
  from loopBody_loopBound[OF this] 2(1) show ?case by simp
qed

declare enumerationLoop.simps [simp del]

subsection \<open>findValidSeedPhrases and main\<close>

text \<open>
  \<open>findValidSeedPhrases\<close> first calls \<open>prepareLogFile\<close>, then
  \<open>loadAttemptedCombinations\<close>, then runs the loop from \<open>this.totalAttempts\<close> and
  saves a final checkpoint. The result holds the exception that leaves the method, if
  any.
\<close>

definition findValidSeedPhrases ::
  "env \<Rightarrow> recovery \<Rightarrow> world \<Rightarrow> error option \<times> recovery \<times> world" where
  "findValidSeedPhrases env r w =
     (if length (wordList r) = 0 then
        (Some (Error ''Word list not initialized. Call initialize() first.''), r, w)
      else
        case loadAttemptedCombinations env r (prepareLogFile env r w) of
          (r1, w1) \<Rightarrow>
            (case enumerationLoop env (totalAttempts r1) r1 w1 of
               (Some e, r2, w2) \<Rightarrow> (Some e, r2, w2)
             | (None, r2, w2) \<Rightarrow> (None, r2, saveCheckpoint env r2 w2)))"

text \<open>
  \<open>main\<close> with the known words and the missing positions as parameters (the source
  passes ten fixed words and \<open>[10, 12]\<close>): construct, initialize, search. Its
  \<open>try\<close>/\<open>catch\<close> prints the exception, which is the first component here.
\<close>

definition main ::
  "env \<Rightarrow> word list \<Rightarrow> int list \<Rightarrow> world \<Rightarrow> error option \<times> recovery \<times> world" where
  "main env kw mp w =
     (case constructor env kw mp w of
        (r0, w0) \<Rightarrow>
          (case initialize env r0 w0 of
             (Some e, r1, w1) \<Rightarrow> (Some e, r1, w1)
           | (None, r1, w1) \<Rightarrow> findValidSeedPhrases env r1 w1))"

section \<open>Observing a run\<close>

text \<open>The events a run adds to the trace.\<close>

definition new_events :: "world \<Rightarrow> world \<Rightarrow> event list" where
  "new_events w w' = drop (length (trace w)) (trace w')"

text \<open>
  The order the ledger design asks for: every validation of an index comes right after
  the ledger append for that index, and after an append that wrote the file the ledger
  holds the record when the candidate is validated. With \<open>strict\<close> the ledger must
  hold the record at every validation, also after an append that failed. \<open>prev\<close> is
  the event before the list.
\<close>

fun attempt_precedes_validation :: "bool \<Rightarrow> event option \<Rightarrow> event list \<Rightarrow> bool" where
  "attempt_precedes_validation strict prev [] = True"
| "attempt_precedes_validation strict prev (Validate i recorded # es) =
     (((prev = Some (LedgerAttempt i True) \<and> recorded)
       \<or> (prev = Some (LedgerAttempt i False) \<and> (recorded \<or> \<not> strict)))
      \<and> attempt_precedes_validation strict (Some (Validate i recorded)) es)"
| "attempt_precedes_validation strict prev (LedgerHeader b # es) =
     attempt_precedes_validation strict (Some (LedgerHeader b)) es"
| "attempt_precedes_validation strict prev (LedgerAttempt i b # es) =
     attempt_precedes_validation strict (Some (LedgerAttempt i b)) es"
| "attempt_precedes_validation strict prev (LedgerMatch b # es) =
     attempt_precedes_validation strict (Some (LedgerMatch b)) es"

text \<open>The indices validated, in order.\<close>

fun validated_indices :: "event list \<Rightarrow> int list" where
  "validated_indices [] = []"
| "validated_indices (Validate i b # es) = i # validated_indices es"
| "validated_indices (LedgerHeader b # es) = validated_indices es"
| "validated_indices (LedgerAttempt i b # es) = validated_indices es"
| "validated_indices (LedgerMatch b # es) = validated_indices es"

subsection \<open>A run that is stopped\<close>

text \<open>
  The program has no way to stop a search; a search stops when its process is killed.
  \<open>passes k\<close> runs the loop for at most \<open>k\<close> passes, and \<open>killedAfter k\<close> is the world
  that \<open>main\<close> leaves behind when the process dies right after the \<open>k\<close>-th pass: the
  files survive, the object does not. Restarting is calling \<open>main\<close> on that world.
\<close>

fun passes :: "nat \<Rightarrow> env \<Rightarrow> int \<Rightarrow> recovery \<Rightarrow> world \<Rightarrow> recovery \<times> world" where
  "passes 0 env ci r w = (r, w)"
| "passes (Suc k) env ci r w =
     (if ci < loopBound r then
        (case loopBody env ci r w of
           (Some e, r', w') \<Rightarrow> (r', w')
         | (None, r', w') \<Rightarrow> passes k env (ci + 1) r' w')
      else (r, w))"

definition killedAfter :: "nat \<Rightarrow> env \<Rightarrow> word list \<Rightarrow> int list \<Rightarrow> world \<Rightarrow> world" where
  "killedAfter k env kw mp w =
     (case constructor env kw mp w of
        (r0, w0) \<Rightarrow>
          (case initialize env r0 w0 of
             (Some e, r1, w1) \<Rightarrow> w1
           | (None, r1, w1) \<Rightarrow>
               if length (wordList r1) = 0 then w1
               else
                 (case loadAttemptedCombinations env r1 (prepareLogFile env r1 w1) of
                    (r2, w2) \<Rightarrow> snd (passes k env (totalAttempts r2) r2 w2))))"

subsection \<open>Small worlds to run the program in\<close>

text \<open>
  A word list of two words, \<open>a\<close> and \<open>b\<close>; with no known word and the missing position
  1 the search space is \<open>{0, 1}\<close>. The environments differ in the file system, the clock
  and the external check.
\<close>

definition empty_world :: world where
  "empty_world = \<lparr>logFile = None, checkpointFile = None, ioCount = 0, clockReads = 0,
                  checkCalls = 0, trace = []\<rparr>"

definition two_words_env ::
  "(nat \<Rightarrow> bool) \<Rightarrow> (nat \<Rightarrow> int) \<Rightarrow> (nat \<Rightarrow> string \<Rightarrow> bool option) \<Rightarrow> env" where
  "two_words_env fails clk chk =
     \<lparr>wordListFile = [''a'', ''b''], ioFails = fails, clock = clk, externalCheck = chk\<rparr>"

text \<open>
  The object after the constructor and \<open>initialize\<close>, for no known word and the
  missing position 1, when no checkpoint was found and the clock showed 0.
\<close>

definition two_words_recovery :: recovery where
  "two_words_recovery =
     \<lparr>knownWords = [], missingPositions = [1], totalAttempts = 0, validAttempts = 0,
      wordList = [''a'', ''b''], startTime = Some 0, combinationCount = Some 2,
      foundValidPhrases = [], lastCheckpointTime = 0, attemptedCombinations = {}\<rparr>"

text \<open>Nothing fails, no time passes, no wallet holds the balance.\<close>

definition steady_env :: env where
  "steady_env = two_words_env (\<lambda>n. False) (\<lambda>n. 0) (\<lambda>n mnemonic. Some False)"

text \<open>Every file system call fails (a read-only or full disk).\<close>

definition failing_disk_env :: env where
  "failing_disk_env = two_words_env (\<lambda>n. True) (\<lambda>n. 0) (\<lambda>n mnemonic. Some False)"

text \<open>Five minutes pass between two readings of the clock.\<close>

definition five_minute_env :: env where
  "five_minute_env =
     two_words_env (\<lambda>n. False) (\<lambda>n. 300000 * int n) (\<lambda>n mnemonic. Some False)"

text \<open>The external check throws at every call.\<close>

definition failing_check_env :: env where
  "failing_check_env = two_words_env (\<lambda>n. False) (\<lambda>n. 0) (\<lambda>n mnemonic. None)"

text \<open>
  A ledger left by another search: five words, three missing positions, 125
  combinations, the indices 0 and 1 attempted.
\<close>

definition stale_ledger_world :: world where
  "stale_ledger_world =
     empty_world\<lparr>logFile :=
       Some \<lparr>ledgerHead =
               Some \<lparr>hdrStartedAt = 0, hdrKnownWords = [''zoo''],
                     hdrMissingPositions = [2, 3, 4], hdrCombinationCount = 125,
                     hdrWordListSize = 5\<rparr>,
             ledgerLines = [AttemptLine 0, AttemptLine 1]\<rparr>\<rparr>"

section \<open>The encoder\<close>

subsection \<open>BigInt arithmetic on the values the encoder meets\<close>

lemma bigint_div_nonneg: "0 \<le> a \<Longrightarrow> 0 < b \<Longrightarrow> bigint_div a b = Inr (a div b)"
  by (cases "a = 0") (simp_all add: bigint_div_def)

lemma bigint_rem_nonneg: "0 \<le> a \<Longrightarrow> 0 < b \<Longrightarrow> bigint_rem a b = Inr (a mod b)"
  by (cases "a = 0") (simp_all add: bigint_rem_def)

lemma bigint_pow_nat: "bigint_pow b (int n) = Inr (b ^ n)"
  by (simp add: bigint_pow_def)

lemma splice_insert_at_length:
  "splice_insert (pre @ post) (int (length pre)) x = pre @ x # post"
  by (simp add: splice_insert_def Let_def)

lemma array_get_in_range:
  "0 \<le> i \<Longrightarrow> i < int (length xs) \<Longrightarrow> array_get xs i = Some (xs ! nat i)"
  by (simp add: array_get_def)

lemma spec_digit_less: "0 < V \<Longrightarrow> spec_digit V M index i < V"
  by (simp add: spec_digit_def nat_less_iff)

lemma int_div_less_bound:
  fixes v :: int
  assumes "0 < v" and "i < v * w"
  shows "i div v < w"
proof -
  have "0 \<le> i mod v" using assms(1) by simp
  moreover have "v * (i div v) + i mod v = i" by simp
  ultimately have "v * (i div v) \<le> i" by linarith
  then have "v * (i div v) < v * w" using assms(2) by linarith
  then show ?thesis using assms(1) by (simp add: mult_less_cancel_left_pos)
qed

subsection \<open>One step of the callback\<close>

text \<open>
  For a non-negative index and a non-empty word list no BigInt operation throws, and the
  word inserted is the one at the specification's digit.
\<close>

lemma forEach_missing_step:
  assumes "0 \<le> ci" and "wl \<noteq> []" and "i < M"
  shows "forEach_missing wl ci (int M) (pos # rest) (int i) cand =
         forEach_missing wl ci (int M) rest (int (Suc i))
           (splice_insert cand (pos - 1) (Some (wl ! spec_digit (length wl) M ci i)))"
proof -
  let ?V = "int (length wl)"
  have V: "0 < ?V" using assms(2) by simp
  have e: "int M - 1 - int i = int (M - 1 - i)" using assms(3) by simp
  have p: "0 < ?V ^ (M - 1 - i)" using V by simp
  have q: "0 \<le> ci div ?V ^ (M - 1 - i)" using assms(1) p by (simp add: pos_imp_zdiv_nonneg_iff)
  have d0: "0 \<le> (ci div ?V ^ (M - 1 - i)) mod ?V" using V by simp
  have d1: "(ci div ?V ^ (M - 1 - i)) mod ?V < ?V" using V by simp
  have g: "array_get wl ((ci div ?V ^ (M - 1 - i)) mod ?V)
           = Some (wl ! spec_digit (length wl) M ci i)"
    unfolding spec_digit_def by (rule array_get_in_range[OF d0 d1])
  have s: "int i + 1 = int (Suc i)" by simp
  show ?thesis
    by (simp only: forEach_missing.simps Let_def e bigint_pow_nat sum.case
      bigint_div_nonneg[OF assms(1) p] bigint_rem_nonneg[OF q V] g s)
qed

subsection \<open>The encoder on a template\<close>

text \<open>
  The invariant of the \<open>forEach\<close>: when the slots of \<open>pre\<close> are resolved and the
  candidate still lacks the free slots of \<open>suf\<close>, the remaining insertions land at
  their own positions, because every earlier slot is already in place.
\<close>

lemma forEach_missing_template:
  assumes "0 \<le> ci" and "freeCount suf = 0 \<or> wl \<noteq> []" and "i + freeCount suf = M"
  shows "forEach_missing wl ci (int M) (freePositions (int (length pre) + 1) suf) (int i)
           (pre @ map Some (fixedTokens suf))
         = Inr (pre @ map Some (spec_encode wl M ci i suf))"
  using assms
proof (induction suf arbitrary: pre i)
  case Nil
  then show ?case by simp
next
  case (Cons s suf)
  show ?case
  proof (cases s)
    case (Fixed t)
    have "forEach_missing wl ci (int M)
            (freePositions (int (length (pre @ [Some t])) + 1) suf) (int i)
            ((pre @ [Some t]) @ map Some (fixedTokens suf))
          = Inr ((pre @ [Some t]) @ map Some (spec_encode wl M ci i suf))"
      using Cons.prems Fixed by (intro Cons.IH) auto
    then show ?thesis using Fixed by (simp add: add.commute add.left_commute)
  next
    case Free
    have wl: "wl \<noteq> []" and iM: "i < M" and rest: "Suc i + freeCount suf = M"
      using Cons.prems Free by auto
    let ?x = "Some (wl ! spec_digit (length wl) M ci i)"
    have "forEach_missing wl ci (int M)
            (freePositions (int (length (pre @ [?x])) + 1) suf) (int (Suc i))
            ((pre @ [?x]) @ map Some (fixedTokens suf))
          = Inr ((pre @ [?x]) @ map Some (spec_encode wl M ci (Suc i) suf))"
      using Cons.prems(1) wl rest by (intro Cons.IH) auto
    then show ?thesis
      unfolding Free freePositions.simps fixedTokens.simps spec_encode.simps
        forEach_missing_step[OF Cons.prems(1) wl iM]
      by (simp add: splice_insert_at_length add.commute add.left_commute)
  qed
qed

lemma length_freePositions: "length (freePositions p tpl) = freeCount tpl"
  by (induction tpl arbitrary: p rule: freeCount.induct) simp_all

lemma generateCombination_template:
  assumes "0 \<le> index" and "index < int (length voc) ^ freeCount tpl"
    and "knownWords r = fixedTokens tpl" and "missingPositions r = freePositions 1 tpl"
    and "wordList r = voc"
  shows "generateCombination r index =
         Inr (map Some (spec_encode voc (freeCount tpl) index 0 tpl))"
proof -
  have ne: "freeCount tpl = 0 \<or> voc \<noteq> []"
    using assms(1,2) by (cases "freeCount tpl") auto
  have "forEach_missing voc index (int (freeCount tpl))
          (freePositions (int (length ([]::candidate)) + 1) tpl) (int 0)
          ([] @ map Some (fixedTokens tpl))
        = Inr ([] @ map Some (spec_encode voc (freeCount tpl) index 0 tpl))"
    by (rule forEach_missing_template[OF assms(1) ne]) simp
  then show ?thesis
    by (simp add: generateCombination_def assms(3,4,5) length_freePositions)
qed

text \<open>
  C1. For every vocabulary, every template and every index in \<open>[0, V^M)\<close>,
  \<open>generateCombination\<close>, given the template's fixed tokens as \<open>knownWords\<close> and the
  positions of its free slots as \<open>missingPositions\<close>, returns the candidate of the
  mixed-radix decoding: the \<open>i\<close>-th free slot holds
  \<open>Vocabulary[floor(index / V^(M-1-i)) mod V]\<close> and the fixed slots are copied. In
  particular, for the vocabulary \<open>[a, b, c]\<close> and the template
  \<open>[Fixed x, Free, Fixed y, Free]\<close> the indices 0, 4 and 8 give \<open>[x, a, y, a]\<close>,
  \<open>[x, b, y, b]\<close> and \<open>[x, c, y, c]\<close>. (Duplicates in the vocabulary play no part
  here.)
\<close>

theorem generateCombination_mixed_radix:
  fixes r ex :: recovery
  shows
    "(0 \<le> index \<and> index < int (length voc) ^ freeCount tpl
        \<and> knownWords r = fixedTokens tpl \<and> missingPositions r = freePositions 1 tpl
        \<and> wordList r = voc
      \<longrightarrow> generateCombination r index
            = Inr (map Some (spec_encode voc (freeCount tpl) index 0 tpl)))
     \<and> (knownWords ex = fixedTokens [Fixed x, Free, Fixed y, Free]
        \<and> missingPositions ex = freePositions 1 [Fixed x, Free, Fixed y, Free]
        \<and> wordList ex = [a, b, c]
      \<longrightarrow> generateCombination ex 0 = Inr [Some x, Some a, Some y, Some a]
        \<and> generateCombination ex 4 = Inr [Some x, Some b, Some y, Some b]
        \<and> generateCombination ex 8 = Inr [Some x, Some c, Some y, Some c])"
proof (intro conjI impI)
  assume "0 \<le> index \<and> index < int (length voc) ^ freeCount tpl
        \<and> knownWords r = fixedTokens tpl \<and> missingPositions r = freePositions 1 tpl
        \<and> wordList r = voc"
  then show "generateCombination r index
            = Inr (map Some (spec_encode voc (freeCount tpl) index 0 tpl))"
    by (intro generateCombination_template) simp_all
next
  let ?tpl = "[Fixed x, Free, Fixed y, Free]"
  assume ex: "knownWords ex = fixedTokens ?tpl
        \<and> missingPositions ex = freePositions 1 ?tpl \<and> wordList ex = [a, b, c]"
  have enc: "generateCombination ex k
             = Inr (map Some (spec_encode [a, b, c] (freeCount ?tpl) k 0 ?tpl))"
    if "0 \<le> k" "k < 9" for k
    using that ex by (intro generateCombination_template) simp_all
  show "generateCombination ex 0 = Inr [Some x, Some a, Some y, Some a]"
    by (simp add: enc spec_digit_def)
  show "generateCombination ex 4 = Inr [Some x, Some b, Some y, Some b]"
    by (simp add: enc spec_digit_def)
  show "generateCombination ex 8 = Inr [Some x, Some c, Some y, Some c]"
    by (simp add: enc spec_digit_def)
qed

theorem generateCombination_mixed_radix_witness:
  "generateCombination
     \<lparr>knownWords = [''x'', ''y''], missingPositions = [2, 4], totalAttempts = 0,
      validAttempts = 0, wordList = [''a'', ''b'', ''c''], startTime = None,
      combinationCount = None, foundValidPhrases = [], lastCheckpointTime = 0,
      attemptedCombinations = {}\<rparr> 5
   = Inr [Some ''x'', Some ''b'', Some ''y'', Some ''c'']"
  using generateCombination_mixed_radix[THEN conjunct1, rule_format,
      where index = 5 and voc = "[''a'', ''b'', ''c'']"
        and tpl = "[Fixed ''x'', Free, Fixed ''y'', Free]"
        and r = "\<lparr>knownWords = [''x'', ''y''], missingPositions = [2, 4], totalAttempts = 0,
                  validAttempts = 0, wordList = [''a'', ''b'', ''c''], startTime = None,
                  combinationCount = None, foundValidPhrases = [], lastCheckpointTime = 0,
                  attemptedCombinations = {}\<rparr>"]
  by (simp add: spec_digit_def)

subsection \<open>Injectivity\<close>

text \<open>An index below \<open>V^M\<close> is determined by its \<open>M\<close> digits.\<close>

lemma digits_determine_index:
  fixes i j :: int
  assumes "0 \<le> i" "i < int V ^ M" "0 \<le> j" "j < int V ^ M"
    and "\<forall>k<M. spec_digit V M i k = spec_digit V M j k"
  shows "i = j"
  using assms
proof (induction M arbitrary: i j)
  case 0
  then show ?case by simp
next
  case (Suc M)
  have V: "0 < int V" using Suc.prems(1,2) by (cases "V = 0") auto
  have low: "i mod int V = j mod int V"
  proof -
    have "spec_digit V (Suc M) i M = spec_digit V (Suc M) j M" using Suc.prems(5) by simp
    moreover have "0 \<le> i mod int V" "0 \<le> j mod int V" using V by simp_all
    ultimately show ?thesis by (simp add: spec_digit_def eq_nat_nat_iff)
  qed
  have hi: "i div int V = j div int V"
  proof (rule Suc.IH)
    show "0 \<le> i div int V" "0 \<le> j div int V"
      using Suc.prems(1,3) V by (simp_all add: pos_imp_zdiv_nonneg_iff)
    show "i div int V < int V ^ M" using Suc.prems(2) V
      by (intro int_div_less_bound) simp_all
    show "j div int V < int V ^ M" using Suc.prems(4) V
      by (intro int_div_less_bound) simp_all
    show "\<forall>k<M. spec_digit V M (i div int V) k = spec_digit V M (j div int V) k"
    proof (intro allI impI)
      fix k assume k: "k < M"
      have e: "Suc M - 1 - k = Suc (M - 1 - k)" using k by simp
      have "spec_digit V (Suc M) x k = spec_digit V M (x div int V) k" for x
        unfolding spec_digit_def e by (simp add: zdiv_zmult2_eq V less_imp_le)
      moreover have "spec_digit V (Suc M) i k = spec_digit V (Suc M) j k"
        using Suc.prems(5) k by simp
      ultimately show "spec_digit V M (i div int V) k = spec_digit V M (j div int V) k"
        by simp
    qed
  qed
  have "i = int V * (i div int V) + i mod int V" by simp
  also have "\<dots> = int V * (j div int V) + j mod int V" using low hi by simp
  also have "\<dots> = j" by simp
  finally show ?case .
qed

text \<open>With distinct tokens, equal decodings have equal digits.\<close>

lemma spec_encode_eq_digits:
  assumes "distinct voc" and "voc \<noteq> []"
    and "spec_encode voc M i k tpl = spec_encode voc M j k tpl"
    and "k \<le> t" and "t < k + freeCount tpl"
  shows "spec_digit (length voc) M i t = spec_digit (length voc) M j t"
  using assms(3-)
proof (induction tpl arbitrary: k)
  case Nil
  then show ?case by simp
next
  case (Cons s tpl)
  show ?case
  proof (cases s)
    case (Fixed w)
    then show ?thesis using Cons by simp
  next
    case Free
    have V: "0 < length voc" using assms(2) by simp
    have hd: "voc ! spec_digit (length voc) M i k = voc ! spec_digit (length voc) M j k"
      and tl: "spec_encode voc M i (Suc k) tpl = spec_encode voc M j (Suc k) tpl"
      using Cons.prems(1) Free by simp_all
    show ?thesis
    proof (cases "t = k")
      case True
      then show ?thesis
        using hd assms(1) spec_digit_less[OF V] by (simp add: nth_eq_iff_index_eq)
    next
      case False
      then show ?thesis using Cons.IH[OF tl] Cons.prems(2,3) Free by simp
    qed
  qed
qed

text \<open>
  C2. For every vocabulary without duplicate tokens and every template, distinct indices
  of \<open>[0, V^M)\<close> give distinct candidates.
\<close>

theorem generateCombination_injective:
  assumes "distinct voc"
    and "knownWords r = fixedTokens tpl" and "missingPositions r = freePositions 1 tpl"
    and "wordList r = voc"
    and "0 \<le> i" and "i < int (length voc) ^ freeCount tpl"
    and "0 \<le> j" and "j < int (length voc) ^ freeCount tpl"
    and "i \<noteq> j"
  shows "generateCombination r i \<noteq> generateCombination r j"
proof
  assume eq: "generateCombination r i = generateCombination r j"
  let ?M = "freeCount tpl"
  have enc: "spec_encode voc ?M i 0 tpl = spec_encode voc ?M j 0 tpl"
    using eq generateCombination_template[OF assms(5,6,2,3,4)]
      generateCombination_template[OF assms(7,8,2,3,4)]
    by (simp add: inj_map_eq_map[OF inj_Some])
  have "voc \<noteq> [] \<or> ?M = 0"
    using assms(5,6) by (cases ?M) auto
  then have "\<forall>k<?M. spec_digit (length voc) ?M i k = spec_digit (length voc) ?M j k"
    using spec_encode_eq_digits[OF assms(1) _ enc] by auto
  then have "i = j"
    by (rule digits_determine_index[OF assms(5,6,7,8)])
  then show False using assms(9) by simp
qed

theorem generateCombination_injective_witness:
  "generateCombination
     \<lparr>knownWords = [''x'', ''y''], missingPositions = [2, 4], totalAttempts = 0,
      validAttempts = 0, wordList = [''a'', ''b'', ''c''], startTime = None,
      combinationCount = None, foundValidPhrases = [], lastCheckpointTime = 0,
      attemptedCombinations = {}\<rparr> 1
   \<noteq> generateCombination
     \<lparr>knownWords = [''x'', ''y''], missingPositions = [2, 4], totalAttempts = 0,
      validAttempts = 0, wordList = [''a'', ''b'', ''c''], startTime = None,
      combinationCount = None, foundValidPhrases = [], lastCheckpointTime = 0,
      attemptedCombinations = {}\<rparr> 3"
  by (rule generateCombination_injective[where voc = "[''a'', ''b'', ''c'']"
        and tpl = "[Fixed ''x'', Free, Fixed ''y'', Free]"]) simp_all

subsection \<open>The local check on generated candidates\<close>

text \<open>With a non-empty word list the encoder throws for no index at all.\<close>

lemma forEach_missing_total:
  assumes "wl \<noteq> []" and "i + length ps = M"
  shows "\<exists>c. forEach_missing wl ci (int M) ps (int i) cand = Inr c"
  using assms(2)
proof (induction ps arbitrary: i cand)
  case Nil
  then show ?case by simp
next
  case (Cons pos ps)
  have e: "int M - 1 - int i = int (M - 1 - i)" and rest: "Suc i + length ps = M"
    using Cons.prems by simp_all
  have V: "int (length wl) \<noteq> 0" using assms(1) by simp
  have s: "int i + 1 = int (Suc i)" by simp
  show ?case
    using Cons.IH[OF rest] V
    by (simp only: forEach_missing.simps Let_def e bigint_pow_nat sum.case s
        bigint_div_def bigint_rem_def power_eq_0_iff if_False) simp
qed

lemma generateCombination_total:
  "wordList r \<noteq> [] \<Longrightarrow> \<exists>c. generateCombination r ci = Inr c"
  unfolding generateCombination_def
  using forEach_missing_total[of "wordList r" 0 "missingPositions r"] by simp

lemma isValidBIP39Phrase_splice:
  assumes "isValidBIP39Phrase r cand" and "s \<in> set (wordList r)"
  shows "isValidBIP39Phrase r (splice_insert cand start (Some s))"
  using assms unfolding isValidBIP39Phrase_def splice_insert_def Let_def list_all_iff
  by (auto dest: in_set_takeD in_set_dropD)

lemma forEach_missing_valid:
  assumes "0 \<le> ci" and "wordList r \<noteq> []" and "i + length ps = M"
    and "isValidBIP39Phrase r cand"
  shows "\<exists>c. forEach_missing (wordList r) ci (int M) ps (int i) cand = Inr c
             \<and> isValidBIP39Phrase r c"
  using assms(3,4)
proof (induction ps arbitrary: i cand)
  case Nil
  then show ?case by simp
next
  case (Cons pos ps)
  have iM: "i < M" and rest: "Suc i + length ps = M" using Cons.prems(1) by simp_all
  let ?s = "wordList r ! spec_digit (length (wordList r)) M ci i"
  have "?s \<in> set (wordList r)"
    using spec_digit_less[of "length (wordList r)" M ci i] assms(2) by simp
  then have "isValidBIP39Phrase r (splice_insert cand (pos - 1) (Some ?s))"
    by (rule isValidBIP39Phrase_splice[OF Cons.prems(2)])
  from Cons.IH[OF rest this] show ?case
    by (simp only: forEach_missing_step[OF assms(1,2) iM])
qed

text \<open>
  C10. \<open>isValidBIP39Phrase\<close> is true exactly when every element of the candidate is a
  word of the word list; it checks nothing else (no checksum). So for every index in
  \<open>[0, V^M)\<close> the candidate \<open>generateCombination\<close> builds from known words that all
  belong to the word list passes it.
\<close>

theorem isValidBIP39Phrase_membership_only:
  "(isValidBIP39Phrase r seedPhrase
      \<longleftrightarrow> (\<forall>w \<in> set seedPhrase. \<exists>s. w = Some s \<and> s \<in> set (wordList r)))
   \<and> (set (knownWords r) \<subseteq> set (wordList r) \<and> 0 \<le> index
        \<and> index < int (length (wordList r)) ^ length (missingPositions r)
      \<longrightarrow> (\<exists>c. generateCombination r index = Inr c \<and> isValidBIP39Phrase r c))"
proof (intro conjI impI)
  show "isValidBIP39Phrase r seedPhrase
      \<longleftrightarrow> (\<forall>w \<in> set seedPhrase. \<exists>s. w = Some s \<and> s \<in> set (wordList r))"
    by (auto simp: isValidBIP39Phrase_def list_all_iff split: option.splits)
next
  assume a: "set (knownWords r) \<subseteq> set (wordList r) \<and> 0 \<le> index
        \<and> index < int (length (wordList r)) ^ length (missingPositions r)"
  have known: "isValidBIP39Phrase r (map Some (knownWords r))"
    using a by (auto simp: isValidBIP39Phrase_def list_all_iff)
  show "\<exists>c. generateCombination r index = Inr c \<and> isValidBIP39Phrase r c"
  proof (cases "missingPositions r")
    case Nil
    then show ?thesis using known by (simp add: generateCombination_def)
  next
    case (Cons p ps)
    then have "wordList r \<noteq> []" using a by auto
    from forEach_missing_valid[OF _ this _ known, of index 0 "missingPositions r"]
    show ?thesis using a by (simp add: generateCombination_def)
  qed
qed

theorem isValidBIP39Phrase_membership_only_witness:
  "\<exists>c. generateCombination
          \<lparr>knownWords = [''b'', ''a''], missingPositions = [2, 4], totalAttempts = 0,
           validAttempts = 0, wordList = [''a'', ''b'', ''c''], startTime = None,
           combinationCount = None, foundValidPhrases = [], lastCheckpointTime = 0,
           attemptedCombinations = {}\<rparr> 5 = Inr c
        \<and> isValidBIP39Phrase
          \<lparr>knownWords = [''b'', ''a''], missingPositions = [2, 4], totalAttempts = 0,
           validAttempts = 0, wordList = [''a'', ''b'', ''c''], startTime = None,
           combinationCount = None, foundValidPhrases = [], lastCheckpointTime = 0,
           attemptedCombinations = {}\<rparr> c"
  by (rule isValidBIP39Phrase_membership_only[THEN conjunct2, rule_format]) simp

section \<open>The size of the search space\<close>

lemma bit_length_numeral:
  "bit_length (numeral (Num.Bit0 k)) = Suc (bit_length (numeral k))"
  "bit_length (numeral (Num.Bit1 k)) = Suc (bit_length (numeral k))"
  "bit_length 1 = 1"
  "bit_length (Suc 0) = 1"
  "bit_length 0 = 0"
  by (subst bit_length.simps, simp)+

text \<open>Below \<open>2^53\<close> the double is the integer, and the count is exact.\<close>

lemma bit_length_le: "n < 2 ^ k \<Longrightarrow> bit_length n \<le> k"
proof (induction n arbitrary: k rule: bit_length.induct)
  case (1 n)
  show ?case
  proof (cases "n = 0")
    case True
    then show ?thesis by (simp add: bit_length.simps)
  next
    case False
    then obtain k' where k: "k = Suc k'" using "1.prems" by (cases k) auto
    have "n div 2 < 2 ^ k'" using "1.prems" k by auto
    from "1.IH"[OF False this] show ?thesis using False k by (subst bit_length.simps) simp
  qed
qed

lemma computeCombinationCount_exact:
  "V ^ M < 2 ^ 53 \<Longrightarrow> computeCombinationCount V M = Inr (int (V ^ M))"
  by (simp add: computeCombinationCount_def number_pow_def round_to_double_def bit_length_le)

lemma computeCombinationCount_2_1 [simp]: "computeCombinationCount (Suc (Suc 0)) (Suc 0) = Inr 2"
proof -
  have "(2::nat) ^ 1 < 2 ^ 53" by simp
  from computeCombinationCount_exact[OF this] show ?thesis by (simp add: numeral_2_eq_2)
qed

text \<open>
  C3. The claim is that \<open>combinationCount\<close> is \<open>V^M\<close> exactly, also beyond \<open>2^53\<close>. The
  code computes the power on doubles and converts the result: for three words and 34
  missing positions the exact count \<open>3^34 = 16677181699666569\<close> is odd and above
  \<open>2^53\<close>, so no double equals it, and \<open>combinationCount\<close> is 16677181699666568; for
  2049 words and 5 missing positions it is one below \<open>2049^5\<close>.
\<close>

theorem combinationCount_rounded_to_double:
  "computeCombinationCount 3 34 = Inr 16677181699666568
   \<and> (3::int) ^ 34 = 16677181699666569
   \<and> \<not> is_double (3 ^ 34)
   \<and> computeCombinationCount 2049 5 = Inr 36116843890485248
   \<and> (2049::int) ^ 5 = 36116843890485249"
  by (simp add: computeCombinationCount_def number_pow_def is_double_def
      round_to_double_def bit_length_numeral Let_def)

section \<open>The checkpoint\<close>

subsection \<open>A BigInt survives its decimal text\<close>

lemma digit_char_props:
  assumes "d < 10"
  shows "digit_value (digit_char d) = Some d" and "\<not> is_ws (digit_char d)"
    and "digit_char d \<notin> set ''+-xXoObB''"
proof -
  have "d \<in> {0, 1, 2, 3, 4, 5, 6, 7, 8, 9}" using assms by auto
  then show "digit_value (digit_char d) = Some d" and "\<not> is_ws (digit_char d)"
    and "digit_char d \<notin> set ''+-xXoObB''"
    by (auto simp: digit_char_def digit_value_def is_ws_def)
qed

lemma string_of_nat_digits:
  "string_of_nat n \<noteq> [] \<and> (\<forall>c \<in> set (string_of_nat n). \<exists>d<10. c = digit_char d)"
proof (induction n rule: string_of_nat.induct)
  case (1 n)
  show ?case
  proof (cases "n < 10")
    case True
    then show ?thesis by (subst (1 2) string_of_nat.simps) auto
  next
    case False
    have "\<exists>d<10. digit_char (n mod 10) = digit_char d"
      by (rule exI[of _ "n mod 10"]) simp
    with "1.IH"[OF False] False show ?thesis
      by (subst (1 2) string_of_nat.simps) auto
  qed
qed

lemma parse_digits_append:
  "parse_digits b acc (xs @ ys) =
     (case parse_digits b acc xs of None \<Rightarrow> None | Some a \<Rightarrow> parse_digits b a ys)"
  by (induction xs arbitrary: acc) (auto split: option.splits)

lemma parse_digits_string_of_nat: "parse_digits 10 0 (string_of_nat n) = Some n"
proof (induction n rule: string_of_nat.induct)
  case (1 n)
  show ?case
  proof (cases "n < 10")
    case True
    then show ?thesis
      by (subst string_of_nat.simps) (simp add: digit_char_props(1))
  next
    case False
    have m: "n mod 10 < 10" by simp
    show ?thesis
      using "1.IH"[OF False] False
      by (subst string_of_nat.simps)
        (simp add: parse_digits_append digit_char_props(1)[OF m])
  qed
qed

lemma trim_no_ws:
  assumes "s \<noteq> []" and "\<not> is_ws (hd s)" and "\<not> is_ws (last s)"
  shows "trim s = s"
proof -
  have "dropWhile is_ws s = s" using assms(1,2) by (cases s) auto
  moreover have "dropWhile is_ws (rev s) = rev s"
    using assms(1,3) by (cases "rev s") (auto simp: last_rev hd_rev[symmetric])
  ultimately show ?thesis by (simp add: trim_def)
qed

lemma StringToBigInt_string_of_nat:
  shows StringToBigInt_plain: "StringToBigInt (string_of_nat n) = Some (int n)"
    and StringToBigInt_minus: "StringToBigInt (CHR ''-'' # string_of_nat n) = Some (- int n)"
proof -
  let ?s = "string_of_nat n"
  have ne: "?s \<noteq> []" and dig: "\<forall>c \<in> set ?s. \<exists>d<10. c = digit_char d"
    using string_of_nat_digits[of n] by simp_all
  have nows: "\<not> is_ws c" and plain: "c \<notin> set ''+-xXoObB''" if "c \<in> set ?s" for c
  proof -
    from dig that have "\<exists>d<10. c = digit_char d" by (rule bspec)
    then obtain d where d: "d < 10" "c = digit_char d" by (elim exE conjE)
    show "\<not> is_ws c" unfolding d(2) by (rule digit_char_props(2)[OF d(1)])
    show "c \<notin> set ''+-xXoObB''" unfolding d(2) by (rule digit_char_props(3)[OF d(1)])
  qed
  have hd: "hd ?s \<in> set ?s" and last: "last ?s \<in> set ?s" using ne by simp_all
  have t1: "trim ?s = ?s"
    by (rule trim_no_ws[OF ne nows[OF hd] nows[OF last]])
  have t2: "trim (CHR ''-'' # ?s) = CHR ''-'' # ?s"
    using nows[OF last] ne by (intro trim_no_ws) (simp_all add: is_ws_def)
  have second: "take 2 ?s \<noteq> [a, b]" if "b \<in> set ''xXoObB''" for a b
  proof
    assume "take 2 ?s = [a, b]"
    then have "b \<in> set (take 2 ?s)" by simp
    then have "b \<in> set ?s" by (rule in_set_takeD)
    with plain[of b] that show False by auto
  qed
  have nx: "take 2 ?s \<notin> set [''0x'', ''0X'']" "take 2 ?s \<notin> set [''0o'', ''0O'']"
    "take 2 ?s \<notin> set [''0b'', ''0B'']"
    using second[of "CHR ''x''" "CHR ''0''"] second[of "CHR ''X''" "CHR ''0''"]
      second[of "CHR ''o''" "CHR ''0''"] second[of "CHR ''O''" "CHR ''0''"]
      second[of "CHR ''b''" "CHR ''0''"] second[of "CHR ''B''" "CHR ''0''"]
    by simp_all
  have sign: "hd ?s \<noteq> CHR ''+''" "hd ?s \<noteq> CHR ''-''"
    using plain[OF hd] by simp_all
  have pl: "parse_literal 10 ?s = Some n"
    using ne by (simp add: parse_literal_def parse_digits_string_of_nat)
  show "StringToBigInt ?s = Some (int n)"
    unfolding StringToBigInt_def t1 Let_def
    by (simp only: ne nx sign pl if_False option.map)
  obtain c cs where cs: "?s = c # cs" using ne by (cases ?s) auto
  have m: "take 2 (CHR ''-'' # ?s) = [CHR ''-'', c]" by (simp add: cs)
  have mx: "take 2 (CHR ''-'' # ?s) \<notin> set [''0x'', ''0X'']"
    "take 2 (CHR ''-'' # ?s) \<notin> set [''0o'', ''0O'']"
    "take 2 (CHR ''-'' # ?s) \<notin> set [''0b'', ''0B'']"
    unfolding m by simp_all
  have hm: "hd (CHR ''-'' # ?s) \<noteq> CHR ''+''" "hd (CHR ''-'' # ?s) = CHR ''-''"
    "tl (CHR ''-'' # ?s) = ?s" "CHR ''-'' # ?s \<noteq> []"
    by simp_all
  show "StringToBigInt (CHR ''-'' # ?s) = Some (- int n)"
    unfolding StringToBigInt_def t2 Let_def
    by (simp only: mx hm pl if_False if_True option.map) simp
qed

lemma BigInt_of_string_toString: "BigInt_of_string (bigint_toString i) = Inr i"
proof (cases "i < 0")
  case True
  then show ?thesis
    by (simp add: BigInt_of_string_def bigint_toString_def StringToBigInt_minus)
next
  case False
  then show ?thesis
    by (simp add: BigInt_of_string_def bigint_toString_def StringToBigInt_plain)
qed

lemma bigint_text_small [simp]:
  "bigint_toString 0 = ''0''" "bigint_toString 1 = ''1''" "bigint_toString 2 = ''2''"
  "BigInt_of_string ''0'' = Inr 0" "BigInt_of_string ''1'' = Inr 1"
  "BigInt_of_string ''2'' = Inr 2"
  by (simp_all add: bigint_toString_def string_of_nat.simps digit_char_def
      BigInt_of_string_def StringToBigInt_def trim_def is_ws_def parse_literal_def
      digit_value_def)

subsection \<open>Saving and loading\<close>

text \<open>
  C9. A checkpoint written by \<open>saveCheckpoint\<close> and read back by \<open>loadCheckpoint\<close>
  (by any object, the write and the two reads succeeding) restores \<open>totalAttempts\<close> to
  the same integer, whatever its size: the file holds its decimal text, and \<open>BigInt\<close>
  of that text is the integer. \<open>validAttempts\<close>, \<open>foundValidPhrases\<close> and \<open>startTime\<close>
  come back as saved.
\<close>

theorem checkpoint_round_trip:
  assumes "\<not> ioFails env (ioCount w)" and "\<not> ioFails env (Suc (ioCount w))"
    and "\<not> ioFails env (Suc (Suc (ioCount w)))"
  shows "case loadCheckpoint env reader (saveCheckpoint env r w) of
           (loaded, r', w') \<Rightarrow>
             loaded
             \<and> totalAttempts r' = totalAttempts r
             \<and> validAttempts r' = validAttempts r
             \<and> foundValidPhrases r' = foundValidPhrases r
             \<and> startTime r' = startTime r
             \<and> map_option cp_totalAttempts (checkpointFile w')
                 = Some (bigint_toString (totalAttempts r))"
  using assms
  by (simp add: loadCheckpoint_def saveCheckpoint_def Let_def BigInt_of_string_toString
      io_fails_def io_tick_def clock_tick_def)

theorem checkpoint_round_trip_witness:
  "case loadCheckpoint steady_env
          \<lparr>knownWords = [], missingPositions = [1], totalAttempts = 0, validAttempts = 0,
           wordList = [], startTime = None, combinationCount = None,
           foundValidPhrases = [], lastCheckpointTime = 0, attemptedCombinations = {}\<rparr>
          (saveCheckpoint steady_env
             \<lparr>knownWords = [], missingPositions = [1],
              totalAttempts = 340282366920938463463374607431768211456, validAttempts = 2,
              wordList = [''a'', ''b''], startTime = Some 1700000000000,
              combinationCount = None, foundValidPhrases = [''a'', ''b''],
              lastCheckpointTime = 0, attemptedCombinations = {}\<rparr>
             empty_world) of
     (loaded, r', w') \<Rightarrow>
       loaded \<and> totalAttempts r' = 340282366920938463463374607431768211456
       \<and> validAttempts r' = 2 \<and> foundValidPhrases r' = [''a'', ''b'']
       \<and> startTime r' = Some 1700000000000"
  using checkpoint_round_trip[where env = steady_env and w = empty_world
      and reader = "\<lparr>knownWords = [], missingPositions = [1], totalAttempts = 0, validAttempts = 0,
           wordList = [], startTime = None, combinationCount = None,
           foundValidPhrases = [], lastCheckpointTime = 0, attemptedCombinations = {}\<rparr>"
      and r = "\<lparr>knownWords = [], missingPositions = [1],
              totalAttempts = 340282366920938463463374607431768211456, validAttempts = 2,
              wordList = [''a'', ''b''], startTime = Some 1700000000000,
              combinationCount = None, foundValidPhrases = [''a'', ''b''],
              lastCheckpointTime = 0, attemptedCombinations = {}\<rparr>"]
  by (simp add: steady_env_def two_words_env_def empty_world_def split: prod.splits)

section \<open>Initialization\<close>

text \<open>
  C8. When some known word is not in the word list, \<open>initialize\<close> throws, and \<open>main\<close>
  ends with that error without reaching \<open>findValidSeedPhrases\<close>: the ledger file and the
  checkpoint file are untouched and the trace has no new event, so no ledger write was
  tried and no index was processed. For a word list that is not empty (the data model's
  \<open>V \<ge> 1\<close>) the error is the message that lists the offending words, in the order of
  \<open>knownWords\<close>; an empty word list is reported first, as a word list that failed to
  load.
\<close>

theorem invalid_known_words_abort:
  assumes "\<exists>word \<in> set kw. word \<notin> set (wordListFile env)"
  shows "case main env kw mp w of
           (res, r', w') \<Rightarrow>
             res \<noteq> None
             \<and> (wordListFile env \<noteq> [] \<longrightarrow>
                  res = Some (Error (''Invalid words in known words: ''
                          @ join '', '' (filter (\<lambda>word. word \<notin> set (wordListFile env)) kw))))
             \<and> logFile w' = logFile w
             \<and> checkpointFile w' = checkpointFile w
             \<and> new_events w w' = []"
proof -
  have "filter (\<lambda>word. word \<notin> set (wordListFile env)) kw \<noteq> []"
    using assms by (simp add: filter_empty_conv)
  then show ?thesis
    by (simp add: main_def constructor_def initialize_def Let_def new_events_def
        clock_tick_def)
qed

theorem invalid_known_words_abort_witness:
  "case main steady_env [''a'', ''zebra'', ''b'', ''yak''] [2] empty_world of
     (res, r', w') \<Rightarrow>
       res = Some (Error ''Invalid words in known words: zebra, yak'')
       \<and> logFile w' = None \<and> checkpointFile w' = None \<and> new_events empty_world w' = []"
  using invalid_known_words_abort[where env = steady_env
      and kw = "[''a'', ''zebra'', ''b'', ''yak'']" and mp = "[2]" and w = empty_world]
  by (simp add: steady_env_def two_words_env_def empty_world_def split: prod.splits)

section \<open>What each method changes\<close>

lemma world_steps [simp]:
  "trace (io_tick w) = trace w" "logFile (io_tick w) = logFile w"
  "checkpointFile (io_tick w) = checkpointFile w" "ioCount (io_tick w) = Suc (ioCount w)"
  "clockReads (io_tick w) = clockReads w" "checkCalls (io_tick w) = checkCalls w"
  "trace (clock_tick w) = trace w" "logFile (clock_tick w) = logFile w"
  "checkpointFile (clock_tick w) = checkpointFile w" "ioCount (clock_tick w) = ioCount w"
  "clockReads (clock_tick w) = Suc (clockReads w)" "checkCalls (clock_tick w) = checkCalls w"
  "trace (emit ev w) = trace w @ [ev]" "logFile (emit ev w) = logFile w"
  "checkpointFile (emit ev w) = checkpointFile w" "ioCount (emit ev w) = ioCount w"
  "clockReads (emit ev w) = clockReads w" "checkCalls (emit ev w) = checkCalls w"
  by (simp_all add: io_tick_def clock_tick_def emit_def)

lemma io_fails_steps [simp]:
  "io_fails env (clock_tick w) = io_fails env w"
  "io_fails env (emit ev w) = io_fails env w"
  "io_fails env (io_tick w) = ioFails env (Suc (ioCount w))"
  by (simp_all add: io_fails_def)

lemma saveCheckpoint_keeps [simp]:
  "trace (saveCheckpoint env r w) = trace w"
  "logFile (saveCheckpoint env r w) = logFile w"
  by (simp_all add: saveCheckpoint_def Let_def)

lemma validateSeedPhrase_keeps:
  "validateSeedPhrase env r c w = (b, w') \<Longrightarrow> trace w' = trace w \<and> logFile w' = logFile w"
  by (auto simp: validateSeedPhrase_def Let_def split: if_splits option.splits)

lemma attempt_indices_append [simp]:
  "attempt_indices (ls @ ms) = attempt_indices ls @ attempt_indices ms"
  by (induction ls rule: attempt_indices.induct) simp_all

lemma logAttemptedCombination_effect:
  assumes "logAttemptedCombination env ci r w = (r', w')"
  shows "trace w' = trace w @ [LedgerAttempt ci (\<not> io_fails env w)]"
    and "r' = r\<lparr>attemptedCombinations :=
                   (if io_fails env w then attemptedCombinations r
                    else insert ci (attemptedCombinations r))\<rparr>"
    and "\<not> io_fails env w \<Longrightarrow> ci \<in> set (ledger_indices w')"
  using assms
  by (auto simp: logAttemptedCombination_def Let_def ledger_indices_def ledger_append_def
      split: if_splits option.splits)

lemma logSeedPhraseAttempt_effect:
  assumes "logSeedPhraseAttempt env c True r w = (r', w')"
  shows "trace w' = trace w @ [LedgerMatch (\<not> io_fails env w)]"
    and "wordList r' = wordList r" and "combinationCount r' = combinationCount r"
    and "totalAttempts r' = totalAttempts r"
    and "attemptedCombinations r' = attemptedCombinations r"
    and "knownWords r' = knownWords r" and "missingPositions r' = missingPositions r"
    and "lastCheckpointTime r' = lastCheckpointTime r"
  using assms by (auto simp: logSeedPhraseAttempt_def Let_def split: if_splits)

text \<open>
  The body of the loop, case by case: an index in the skip set only advances the
  counter; any other index is logged, then validated, then (on a match) reported. With
  a non-empty word list the only exception is the TypeError of the progress report.
\<close>

lemma loopBody_skip:
  "ci \<in> attemptedCombinations r \<Longrightarrow> loopBody env ci r w = (None, r\<lparr>totalAttempts := ci + 1\<rparr>, w)"
  by (simp add: loopBody_def)

lemma loopBody_fresh:
  assumes "ci \<notin> attemptedCombinations r" and "wordList r \<noteq> []"
    and "loopBody env ci r w = (res, r', w')"
  shows "\<exists>recorded evs.
            trace w' = trace w @ LedgerAttempt ci (\<not> io_fails env w)
                                 # Validate ci recorded # evs
            \<and> (\<not> io_fails env w \<longrightarrow> recorded)
            \<and> (evs = [] \<or> (\<exists>b. evs = [LedgerMatch b]))"
    and "wordList r' = wordList r" and "combinationCount r' = combinationCount r"
    and "knownWords r' = knownWords r" and "missingPositions r' = missingPositions r"
    and "totalAttempts r' = ci + 1"
    and "attemptedCombinations r' = (if io_fails env w then attemptedCombinations r
                    else insert ci (attemptedCombinations r))"
    and "res = None \<or> (res = Some TypeError \<and> combinationCount r = None)"
proof -
  let ?r1 = "r\<lparr>totalAttempts := ci + 1\<rparr>"
  obtain cand where cand: "generateCombination ?r1 ci = Inr cand"
    using generateCombination_total[of ?r1 ci] assms(2) by auto
  obtain r2 w2 where l: "logAttemptedCombination env ci ?r1 w = (r2, w2)"
    by (cases "logAttemptedCombination env ci ?r1 w") auto
  let ?ev = "Validate ci (ci \<in> set (ledger_indices w2))"
  obtain isValid w3 where v: "validateSeedPhrase env r2 cand (emit ?ev w2) = (isValid, w3)"
    by (cases "validateSeedPhrase env r2 cand (emit ?ev w2)") auto
  obtain r4 w4 where m: "(if isValid then logSeedPhraseAttempt env cand isValid r2 w3 else (r2, w3)) = (r4, w4)"
    by (cases "(if isValid then logSeedPhraseAttempt env cand isValid r2 w3 else (r2, w3))") auto
  note le = logAttemptedCombination_effect[OF l]
  note ve = validateSeedPhrase_keeps[OF v]
  have t4: "trace w4 = trace w3 @ (if isValid then [LedgerMatch (\<not> io_fails env w3)] else [])"
    and r4: "wordList r4 = wordList r2" "combinationCount r4 = combinationCount r2"
      "totalAttempts r4 = totalAttempts r2" "attemptedCombinations r4 = attemptedCombinations r2"
      "knownWords r4 = knownWords r2" "missingPositions r4 = missingPositions r2"
    using m logSeedPhraseAttempt_effect[of env cand r2 w3 r4 w4]
    by (auto split: if_splits)
  have body: "(res, r', w') =
     (if totalAttempts r4 mod 100000 = 0 \<and> combinationCount r4 = None
      then (Some TypeError, r4, w4)
      else if date_now env w4 - lastCheckpointTime r4 \<ge> 300000
           then (None, r4\<lparr>lastCheckpointTime := date_now env w4\<rparr>,
                 saveCheckpoint env r4 (clock_tick w4))
           else (None, r4, clock_tick w4))"
    using assms(1,3) by (auto simp add: loopBody_def Let_def cand l v m split: if_splits)
  have tr: "trace w' = trace w4"
    using body by (auto split: if_splits)
  show "\<exists>recorded evs.
            trace w' = trace w @ LedgerAttempt ci (\<not> io_fails env w)
                                 # Validate ci recorded # evs
            \<and> (\<not> io_fails env w \<longrightarrow> recorded)
            \<and> (evs = [] \<or> (\<exists>b. evs = [LedgerMatch b]))"
    using tr t4 ve le(1,3) by auto
  show "wordList r' = wordList r" "combinationCount r' = combinationCount r"
    "knownWords r' = knownWords r" "missingPositions r' = missingPositions r"
    "totalAttempts r' = ci + 1"
    "attemptedCombinations r' = (if io_fails env w then attemptedCombinations r
                    else insert ci (attemptedCombinations r))"
    using body r4 le(2) by (auto split: if_splits)
  show "res = None \<or> (res = Some TypeError \<and> combinationCount r = None)"
    using body r4 le(2) by (auto split: if_splits)
qed

section \<open>The enumeration loop\<close>

text \<open>
  A rule for the loop: an invariant kept by every pass that raises no exception gives
  what holds when the loop ends, whether it runs out of indices or a pass throws.
\<close>

lemma enumerationLoop_rule:
  assumes "I ci r w"
    and "\<And>ci r w res r' w'. \<lbrakk>I ci r w; ci < loopBound r; loopBody env ci r w = (res, r', w')\<rbrakk>
           \<Longrightarrow> (case res of None \<Rightarrow> I (ci + 1) r' w' | Some e \<Rightarrow> Q (Some e) r' w')"
    and "\<And>ci r w. \<lbrakk>I ci r w; \<not> ci < loopBound r\<rbrakk> \<Longrightarrow> Q None r w"
  shows "case enumerationLoop env ci r w of (res, r', w') \<Rightarrow> Q res r' w'"
  using assms
proof (induction env ci r w rule: enumerationLoop.induct)
  case (1 env ci r w)
  show ?case
  proof (cases "ci < loopBound r")
    case False
    then show ?thesis using "1.prems"(1,3) by (simp add: enumerationLoop.simps)
  next
    case True
    obtain res r' w' where b: "loopBody env ci r w = (res, r', w')"
      by (cases "loopBody env ci r w") auto
    note s = "1.prems"(2)[OF "1.prems"(1) True b]
    show ?thesis
    proof (cases res)
      case (Some e)
      then show ?thesis using s True b by (simp add: enumerationLoop.simps)
    next
      case None
      have "case enumerationLoop env (ci + 1) r' w' of (res, r', w') \<Rightarrow> Q res r' w'"
      proof (rule "1.IH"[OF True b[symmetric] None refl _ "1.prems"(2,3)])
        show "I (ci + 1) r' w'" using s None by simp
      qed
      then show ?thesis using True b None by (simp add: enumerationLoop.simps)
    qed
  qed
qed

lemma attempt_precedes_validation_append:
  "attempt_precedes_validation s prev (xs @ ys) =
     (attempt_precedes_validation s prev xs
      \<and> attempt_precedes_validation s (if xs = [] then prev else Some (last xs)) ys)"
  by (induction s prev xs rule: attempt_precedes_validation.induct) auto

text \<open>The events of a run of the loop.\<close>

lemma enumerationLoop_events:
  assumes "wordList r \<noteq> []"
  shows "case enumerationLoop env ci r w of
           (res, r', w') \<Rightarrow>
             \<exists>evs. trace w' = trace w @ evs
               \<and> (\<forall>prev. attempt_precedes_validation False prev evs)
               \<and> ((\<forall>n. \<not> ioFails env n) \<longrightarrow> (\<forall>prev. attempt_precedes_validation True prev evs))"
proof -
  define P where "P w' \<longleftrightarrow> (\<exists>evs. trace w' = trace w @ evs
               \<and> (\<forall>prev. attempt_precedes_validation False prev evs)
               \<and> ((\<forall>n. \<not> ioFails env n) \<longrightarrow> (\<forall>prev. attempt_precedes_validation True prev evs)))"
    for w' :: world
  have step: "P w2" if "P w1" and "wordList r1 \<noteq> []"
    and b: "loopBody env ci1 r1 w1 = (res, r2, w2)" for ci1 r1 w1 res r2 w2
  proof (cases "ci1 \<in> attemptedCombinations r1")
    case True
    then show ?thesis using that by (simp add: loopBody_skip)
  next
    case False
    from loopBody_fresh(1)[OF False that(2) b] obtain recorded evs where
      evs: "trace w2 = trace w1 @ LedgerAttempt ci1 (\<not> io_fails env w1)
                                  # Validate ci1 recorded # evs"
        "evs = [] \<or> (\<exists>b. evs = [LedgerMatch b])"
      and rec: "\<not> io_fails env w1 \<longrightarrow> recorded" by blast
    from \<open>P w1\<close> obtain evs1 where
      evs1: "trace w1 = trace w @ evs1" "\<forall>prev. attempt_precedes_validation False prev evs1"
        "(\<forall>n. \<not> ioFails env n) \<longrightarrow> (\<forall>prev. attempt_precedes_validation True prev evs1)"
      unfolding P_def by blast
    let ?chunk = "LedgerAttempt ci1 (\<not> io_fails env w1) # Validate ci1 recorded # evs"
    have c1: "attempt_precedes_validation False prev ?chunk" for prev
      using evs(2) rec by auto
    have c2: "attempt_precedes_validation True prev ?chunk" if "\<not> io_fails env w1" for prev
      using evs(2) rec that by auto
    have "trace w2 = trace w @ (evs1 @ ?chunk)" using evs(1) evs1(1) by simp
    moreover have "\<forall>prev. attempt_precedes_validation False prev (evs1 @ ?chunk)"
      unfolding attempt_precedes_validation_append using evs1(2) c1 by blast
    moreover have "(\<forall>n. \<not> ioFails env n)
        \<longrightarrow> (\<forall>prev. attempt_precedes_validation True prev (evs1 @ ?chunk))"
    proof (intro impI allI)
      fix prev
      assume nf: "\<forall>n. \<not> ioFails env n"
      then have "\<not> io_fails env w1" by (simp add: io_fails_def)
      from c2[OF this] evs1(3) nf
      show "attempt_precedes_validation True prev (evs1 @ ?chunk)"
        unfolding attempt_precedes_validation_append by blast
    qed
    ultimately show ?thesis unfolding P_def by blast
  qed
  have keep: "wordList r2 = wordList r1"
    if "wordList r1 \<noteq> []" and b: "loopBody env ci1 r1 w1 = (res, r2, w2)" for ci1 r1 w1 res r2 w2
    using that loopBody_fresh(2)[OF _ that] by (cases "ci1 \<in> attemptedCombinations r1") (auto simp: loopBody_skip)
  have "case enumerationLoop env ci r w of (res, r', w') \<Rightarrow> P w'"
  proof (rule enumerationLoop_rule[where I = "\<lambda>ci r' w'. wordList r' \<noteq> [] \<and> P w'"])
    show "wordList r \<noteq> [] \<and> P w" using assms by (simp add: P_def)
  next
    fix ci r w res r' w'
    assume "wordList r \<noteq> [] \<and> P w" "ci < loopBound r" "loopBody env ci r w = (res, r', w')"
    then show "case res of None \<Rightarrow> wordList r' \<noteq> [] \<and> P w' | Some e \<Rightarrow> P w'"
      using step keep by (auto split: option.splits)
  qed simp
  then show ?thesis by (simp add: P_def split: prod.splits)
qed

text \<open>An initialized object meets no exception in the loop.\<close>

lemma enumerationLoop_no_exception:
  assumes "wordList r \<noteq> []" and "combinationCount r \<noteq> None"
  shows "fst (enumerationLoop env ci r w) = None"
proof -
  have "case enumerationLoop env ci r w of (res, r', w') \<Rightarrow> res = None"
  proof (rule enumerationLoop_rule[where
        I = "\<lambda>ci r' w'. wordList r' \<noteq> [] \<and> combinationCount r' \<noteq> None"])
    show "wordList r \<noteq> [] \<and> combinationCount r \<noteq> None" using assms by simp
  next
    fix ci r w res r' w'
    assume a: "wordList r \<noteq> [] \<and> combinationCount r \<noteq> None" "ci < loopBound r"
      "loopBody env ci r w = (res, r', w')"
    show "case res of None \<Rightarrow> wordList r' \<noteq> [] \<and> combinationCount r' \<noteq> None
          | Some e \<Rightarrow> Some e = None"
    proof (cases "ci \<in> attemptedCombinations r")
      case True
      then show ?thesis using a by (auto simp: loopBody_skip)
    next
      case False
      from loopBody_fresh(2,3,8)[OF False _ a(3)] a(1) show ?thesis
        by (auto split: option.splits)
    qed
  qed simp
  then show ?thesis by (simp split: prod.splits)
qed

section \<open>Runs in the small worlds\<close>

text \<open>The definitions a run unfolds.\<close>

lemmas run_defs =
  main_def killedAfter_def constructor_def initialize_def loadCheckpoint_def
  saveCheckpoint_def findValidSeedPhrases_def prepareLogFile_def
  loadAttemptedCombinations_def enumerationLoop.simps loopBound_def loopBody_def
  generateCombination_def bigint_pow_def bigint_div_def bigint_rem_def array_get_def
  splice_insert_def logAttemptedCombination_def validateSeedPhrase_def
  isValidBIP39Phrase_def candidate_join_def logSeedPhraseAttempt_def ledger_append_def
  io_fails_def io_tick_def date_now_def clock_tick_def emit_def ledger_indices_def
  empty_world_def two_words_env_def steady_env_def failing_disk_env_def
  five_minute_env_def failing_check_env_def stale_ledger_world_def
  two_words_recovery_def Let_def

section \<open>The search\<close>

lemma prepareLogFile_trace:
  "\<exists>b. trace (prepareLogFile env r w) = trace w @ [LedgerHeader b]"
  by (auto simp: prepareLogFile_def Let_def split: option.splits)

lemma loadAttemptedCombinations_keeps:
  assumes "loadAttemptedCombinations env r w = (r', w')"
  shows "trace w' = trace w" and "wordList r' = wordList r"
    and "combinationCount r' = combinationCount r" and "totalAttempts r' = totalAttempts r"
    and "validAttempts r' = validAttempts r" and "foundValidPhrases r' = foundValidPhrases r"
  using assms
  by (auto simp: loadAttemptedCombinations_def Let_def split: if_splits option.splits)

lemma new_events_append: "trace w' = trace w @ evs \<Longrightarrow> new_events w w' = evs"
  by (simp add: new_events_def)

lemma validated_indices_append [simp]:
  "validated_indices (xs @ ys) = validated_indices xs @ validated_indices ys"
  by (induction xs rule: validated_indices.induct) simp_all

text \<open>
  The events of a whole search: the header write, then the events of the loop.
\<close>

lemma findValidSeedPhrases_events:
  "case findValidSeedPhrases env r w of
     (res, r', w') \<Rightarrow>
       \<exists>evs. trace w' = trace w @ evs
         \<and> attempt_precedes_validation False None evs
         \<and> ((\<forall>n. \<not> ioFails env n) \<longrightarrow> attempt_precedes_validation True None evs)"
proof (cases "wordList r = []")
  case True
  then show ?thesis by (simp add: findValidSeedPhrases_def)
next
  case False
  obtain b where p: "trace (prepareLogFile env r w) = trace w @ [LedgerHeader b]"
    using prepareLogFile_trace by blast
  obtain r1 w1 where l: "loadAttemptedCombinations env r (prepareLogFile env r w) = (r1, w1)"
    by (cases "loadAttemptedCombinations env r (prepareLogFile env r w)") auto
  note lk = loadAttemptedCombinations_keeps[OF l]
  obtain res r2 w2 where e: "enumerationLoop env (totalAttempts r1) r1 w1 = (res, r2, w2)"
    by (cases "enumerationLoop env (totalAttempts r1) r1 w1") auto
  have "wordList r1 \<noteq> []" using False lk(2) by simp
  from enumerationLoop_events[OF this, where env = env and ci = "totalAttempts r1" and w = w1] e
  obtain evs where evs: "trace w2 = trace w1 @ evs"
      "\<forall>prev. attempt_precedes_validation False prev evs"
      "(\<forall>n. \<not> ioFails env n) \<longrightarrow> (\<forall>prev. attempt_precedes_validation True prev evs)"
    by auto
  have t: "trace w2 = trace w @ (LedgerHeader b # evs)" using evs(1) lk(1) p by simp
  have f: "findValidSeedPhrases env r w =
           (case res of Some x \<Rightarrow> (Some x, r2, w2) | None \<Rightarrow> (None, r2, saveCheckpoint env r2 w2))"
    using False by (simp add: findValidSeedPhrases_def l e split: option.splits)
  show ?thesis
    unfolding f using t evs(2,3)
    by (cases res) (auto intro!: exI[of _ "LedgerHeader b # evs"])
qed

text \<open>
  C4, as the code has it. In every search, each validation of an index comes right
  after the call of \<open>logAttemptedCombination\<close> for that index, and when that append
  wrote the file, the ledger holds the record at the moment the candidate is validated.
  When no file system call fails, every validated index is in the ledger before it is
  validated. (A failed append is caught and logged, and the candidate is validated all
  the same.)
\<close>

theorem attempt_logged_before_validation:
  "case findValidSeedPhrases env r w of
     (res, r', w') \<Rightarrow>
       trace w' = trace w @ new_events w w'
       \<and> attempt_precedes_validation False None (new_events w w')
       \<and> ((\<forall>n. \<not> ioFails env n)
            \<longrightarrow> attempt_precedes_validation True None (new_events w w'))"
proof -
  obtain res r' w' where f: "findValidSeedPhrases env r w = (res, r', w')"
    by (metis prod_cases3)
  from findValidSeedPhrases_events[where env = env and r = r and w = w]
  obtain evs where "trace w' = trace w @ evs"
    "attempt_precedes_validation False None evs"
    "(\<forall>n. \<not> ioFails env n) \<longrightarrow> attempt_precedes_validation True None evs"
    unfolding f by auto
  then show ?thesis
    unfolding f by (simp add: new_events_append)
qed

theorem attempt_logged_before_validation_witness:
  "attempt_precedes_validation True None
     (new_events empty_world
        (snd (snd (findValidSeedPhrases steady_env two_words_recovery empty_world))))"
proof -
  have nf: "\<forall>n. \<not> ioFails steady_env n"
    by (simp add: steady_env_def two_words_env_def)
  obtain res r' w' where
    f: "findValidSeedPhrases steady_env two_words_recovery empty_world = (res, r', w')"
    by (cases "findValidSeedPhrases steady_env two_words_recovery empty_world") auto
  from attempt_logged_before_validation[where env = steady_env
      and r = two_words_recovery and w = empty_world] nf
  show ?thesis unfolding f by simp
qed

text \<open>
  C4, as the claim states it, fails when the ledger cannot be written: both indices are
  validated, and the ledger holds a record of neither, before or after.
\<close>

theorem validated_without_record_counterexample:
  "trace (snd (snd (main failing_disk_env [] [1] empty_world)))
     = [LedgerHeader False, LedgerAttempt 0 False, Validate 0 False,
        LedgerAttempt 1 False, Validate 1 False]
   \<and> ledger_indices (snd (snd (main failing_disk_env [] [1] empty_world))) = []
   \<and> \<not> attempt_precedes_validation True None
         (new_events empty_world (snd (snd (main failing_disk_env [] [1] empty_world))))"
proof -
  have t: "trace (snd (snd (main failing_disk_env [] [1] empty_world)))
     = [LedgerHeader False, LedgerAttempt 0 False, Validate 0 False,
        LedgerAttempt 1 False, Validate 1 False]"
    by (simp add: run_defs)
  have l: "ledger_indices (snd (snd (main failing_disk_env [] [1] empty_world))) = []"
    by (simp add: run_defs)
  have "trace (snd (snd (main failing_disk_env [] [1] empty_world)))
        = trace empty_world @ [LedgerHeader False, LedgerAttempt 0 False, Validate 0 False,
        LedgerAttempt 1 False, Validate 1 False]"
    unfolding t by (simp add: empty_world_def)
  from new_events_append[OF this] t l show ?thesis by simp
qed

section \<open>Resuming\<close>

lemma findValidSeedPhrases_no_exception:
  assumes "wordList r \<noteq> []" and "combinationCount r \<noteq> None"
  shows "fst (findValidSeedPhrases env r w) = None"
proof -
  obtain r1 w1 where l: "loadAttemptedCombinations env r (prepareLogFile env r w) = (r1, w1)"
    by (metis prod.exhaust)
  note lk = loadAttemptedCombinations_keeps[OF l]
  obtain res r2 w2 where e: "enumerationLoop env (totalAttempts r1) r1 w1 = (res, r2, w2)"
    by (metis prod_cases3)
  have "fst (enumerationLoop env (totalAttempts r1) r1 w1) = None"
    using assms lk(2,3) by (intro enumerationLoop_no_exception) simp_all
  then have "res = None" using e by simp
  then show ?thesis using assms(1) by (simp add: findValidSeedPhrases_def l e)
qed

text \<open>
  C7, as the code has it. Nothing compares the header of the ledger file with the
  parameters of the run: for an initialized object (a word list that is not empty, a
  search-space size that is set) \<open>findValidSeedPhrases\<close> ends without an exception in
  every world, whatever the ledger file holds.
\<close>

theorem no_mismatch_error_on_resume:
  "wordList r \<noteq> [] \<and> combinationCount r \<noteq> None
   \<longrightarrow> fst (findValidSeedPhrases env r w) = None"
  using findValidSeedPhrases_no_exception by blast

theorem no_mismatch_error_on_resume_witness:
  "fst (findValidSeedPhrases steady_env two_words_recovery stale_ledger_world) = None"
  by (rule no_mismatch_error_on_resume[rule_format])
    (simp add: two_words_recovery_def)

text \<open>
  C7, as the claim states it, fails: started on the ledger of another search (five
  words, three missing positions, 125 combinations), \<open>main\<close> reports no error and
  validates both indices of its own search space.
\<close>

theorem stale_header_accepted_counterexample:
  "fst (main steady_env [] [1] stale_ledger_world) = None
   \<and> validated_indices (trace (snd (snd (main steady_env [] [1] stale_ledger_world))))
       = [0, 1]"
  by (simp add: run_defs)

text \<open>
  C6. The claim is that after a stop and a restart the ledger holds the indices of both
  runs and no index is validated twice. \<open>findValidSeedPhrases\<close> calls \<open>prepareLogFile\<close>
  before \<open>loadAttemptedCombinations\<close>, and \<open>fs.writeFile\<close> replaces the ledger by a
  fresh header, so the restarted run never sees the earlier attempts. Two runs over the
  search space \<open>{0, 1}\<close>, each killed after its first pass:
  \<^item> with a checkpoint saved in that pass (five minutes had gone by), the restart
    resumes at index 1 and the final ledger holds index 1 only: index 0 is lost;
  \<^item> with no checkpoint yet, the restart begins at index 0 again and validates it a
    second time, although the ledger of the first run held it.
\<close>

theorem restart_forgets_ledger:
  "ledger_indices (killedAfter 1 five_minute_env [] [1] empty_world) = [0]
   \<and> map_option cp_totalAttempts
        (checkpointFile (killedAfter 1 five_minute_env [] [1] empty_world)) = Some ''1''
   \<and> ledger_indices
        (snd (snd (main five_minute_env [] [1]
                     (killedAfter 1 five_minute_env [] [1] empty_world)))) = [1]
   \<and> ledger_indices (killedAfter 1 steady_env [] [1] empty_world) = [0]
   \<and> checkpointFile (killedAfter 1 steady_env [] [1] empty_world) = None
   \<and> validated_indices
        (trace (snd (snd (main steady_env [] [1]
                            (killedAfter 1 steady_env [] [1] empty_world))))) = [0, 0, 1]"
proof (intro conjI)
  show "ledger_indices (killedAfter 1 five_minute_env [] [1] empty_world) = [0]"
    by (simp add: run_defs)
  show "map_option cp_totalAttempts
        (checkpointFile (killedAfter 1 five_minute_env [] [1] empty_world)) = Some ''1''"
    by (simp add: run_defs)
  show "ledger_indices
        (snd (snd (main five_minute_env [] [1]
                     (killedAfter 1 five_minute_env [] [1] empty_world)))) = [1]"
    by (simp add: run_defs)
  show "ledger_indices (killedAfter 1 steady_env [] [1] empty_world) = [0]"
    by (simp add: run_defs)
  show "checkpointFile (killedAfter 1 steady_env [] [1] empty_world) = None"
    by (simp add: run_defs)
  show "validated_indices
        (trace (snd (snd (main steady_env [] [1]
                            (killedAfter 1 steady_env [] [1] empty_world))))) = [0, 0, 1]"
    by (simp add: run_defs)
qed

section \<open>A failing external check\<close>

lemma validateSeedPhrase_check_fails:
  "\<forall>k m. externalCheck env k m = None \<Longrightarrow> fst (validateSeedPhrase env r c w) = False"
  by (simp add: validateSeedPhrase_def Let_def)

lemma loopBody_check_fails:
  assumes "\<forall>k m. externalCheck env k m = None" and "loopBody env ci r w = (res, r', w')"
  shows "validAttempts r' = validAttempts r" and "foundValidPhrases r' = foundValidPhrases r"
  using assms
  by (auto simp: loopBody_def Let_def logAttemptedCombination_def validateSeedPhrase_def
      split: if_splits sum.splits prod.splits option.splits)

text \<open>
  The loop from \<open>start\<close> with the skip set \<open>S\<close>: it ends without an exception at
  \<open>max start n\<close>, finds nothing, and every index from \<open>start\<close> below \<open>n\<close> is in the
  skip set or was validated.
\<close>

lemma enumerationLoop_check_fails:
  assumes chk: "\<forall>k m. externalCheck env k m = None"
    and init: "wordList r \<noteq> []" "combinationCount r = Some n"
    and start: "totalAttempts r = start" and S: "attemptedCombinations r = S"
  shows "case enumerationLoop env start r w of
           (res, r', w') \<Rightarrow>
             res = None \<and> validAttempts r' = validAttempts r
             \<and> foundValidPhrases r' = foundValidPhrases r
             \<and> totalAttempts r' = max start n
             \<and> (\<exists>evs. trace w' = trace w @ evs
                  \<and> (\<forall>i. start \<le> i \<and> i < n \<longrightarrow> i \<in> S \<or> i \<in> set (validated_indices evs)))"
proof -
  define I where "I ci r1 w1 \<longleftrightarrow>
      wordList r1 \<noteq> [] \<and> combinationCount r1 = Some n
      \<and> validAttempts r1 = validAttempts r \<and> foundValidPhrases r1 = foundValidPhrases r
      \<and> totalAttempts r1 = ci \<and> start \<le> ci \<and> (ci \<le> n \<or> ci = start)
      \<and> attemptedCombinations r1 \<subseteq> S \<union> {start..<ci}
      \<and> (\<exists>evs. trace w1 = trace w @ evs
            \<and> (\<forall>i. start \<le> i \<and> i < ci \<longrightarrow> i \<in> S \<or> i \<in> set (validated_indices evs)))"
    for ci :: int and r1 :: recovery and w1 :: world
  define Q where "Q res r' w' \<longleftrightarrow>
      res = None \<and> validAttempts r' = validAttempts r
      \<and> foundValidPhrases r' = foundValidPhrases r
      \<and> totalAttempts r' = max start n
      \<and> (\<exists>evs. trace w' = trace w @ evs
            \<and> (\<forall>i. start \<le> i \<and> i < n \<longrightarrow> i \<in> S \<or> i \<in> set (validated_indices evs)))"
    for res :: "error option" and r' :: recovery and w' :: world
  have "case enumerationLoop env start r w of (res, r', w') \<Rightarrow> Q res r' w'"
  proof (rule enumerationLoop_rule[where I = I])
    show "I start r w" using init start S by (auto simp: I_def)
  next
    fix ci r1 w1
    assume "I ci r1 w1" and "\<not> ci < loopBound r1"
    then show "Q None r1 w1"
      unfolding I_def Q_def loopBound_def by (auto simp: max_def)
  next
    fix ci r1 w1 res r2 w2
    assume inv: "I ci r1 w1" and lt: "ci < loopBound r1"
      and b: "loopBody env ci r1 w1 = (res, r2, w2)"
    have n: "ci < n" using inv lt by (simp add: I_def loopBound_def)
    from inv obtain evs where evs: "trace w1 = trace w @ evs"
      "\<forall>i. start \<le> i \<and> i < ci \<longrightarrow> i \<in> S \<or> i \<in> set (validated_indices evs)"
      unfolding I_def by blast
    note keep = loopBody_check_fails[OF chk b]
    have "res = None \<and> I (ci + 1) r2 w2"
    proof (cases "ci \<in> attemptedCombinations r1")
      case True
      then have eq: "res = None" "r2 = r1\<lparr>totalAttempts := ci + 1\<rparr>" "w2 = w1"
        using b by (simp_all add: loopBody_skip)
      have "ci \<in> S" using True inv by (auto simp: I_def)
      then have "\<forall>i. start \<le> i \<and> i < ci + 1 \<longrightarrow> i \<in> S \<or> i \<in> set (validated_indices evs)"
        using evs(2) by (metis zless_add1_eq)
      then show ?thesis using inv n evs(1) unfolding eq I_def by auto
    next
      case False
      have wl: "wordList r1 \<noteq> []" using inv by (simp add: I_def)
      note f = loopBody_fresh[OF False wl b]
      from f(1) obtain recorded more where
        t: "trace w2 = trace w1 @ LedgerAttempt ci (\<not> io_fails env w1)
                                  # Validate ci recorded # more" by blast
      let ?evs = "evs @ LedgerAttempt ci (\<not> io_fails env w1) # Validate ci recorded # more"
      have t2: "trace w2 = trace w @ ?evs" using t evs(1) by simp
      have "ci \<in> set (validated_indices ?evs)" by simp
      then have cov: "\<forall>i. start \<le> i \<and> i < ci + 1 \<longrightarrow> i \<in> S \<or> i \<in> set (validated_indices ?evs)"
        using evs(2) by (auto simp: zless_add1_eq)
      have res: "res = None" using f(8) inv by (auto simp: I_def)
      have sub: "attemptedCombinations r2 \<subseteq> S \<union> {start..<ci + 1}"
        using f(7) inv by (auto simp: I_def)
      show ?thesis
        unfolding I_def using res sub cov t2 f(2,3,6) keep inv n
        by (auto simp: I_def)
    qed
    then show "case res of None \<Rightarrow> I (ci + 1) r2 w2 | Some e \<Rightarrow> Q (Some e) r2 w2"
      by simp
  qed
  then show ?thesis by (simp add: Q_def split: prod.splits)
qed

text \<open>
  C5. When the external check throws for every candidate, \<open>validateSeedPhrase\<close>
  returns \<open>false\<close> and propagates nothing, and a search on an initialized object that
  has found nothing so far ends without an exception, with \<open>validAttempts = 0\<close> and
  no phrase found, at the end of the space: \<open>totalAttempts\<close> is the search-space size
  (or where it already stood, beyond it), and every index from the starting point to
  the end of the space was validated, unless it was in the skip set loaded from the
  ledger.
\<close>

theorem oracle_failure_tolerated:
  assumes "\<forall>k m. externalCheck env k m = None"
  shows "fst (validateSeedPhrase env r c w) = False
    \<and> (wordList r \<noteq> [] \<and> combinationCount r = Some n \<and> validAttempts r = 0
        \<longrightarrow> (case findValidSeedPhrases env r w of
               (res, r', w') \<Rightarrow>
                 res = None \<and> validAttempts r' = 0
                 \<and> foundValidPhrases r' = foundValidPhrases r
                 \<and> totalAttempts r' = max (totalAttempts r) n
                 \<and> (\<forall>i. totalAttempts r \<le> i \<and> i < n \<longrightarrow>
                        i \<in> attemptedCombinations
                              (fst (loadAttemptedCombinations env r (prepareLogFile env r w)))
                        \<or> i \<in> set (validated_indices (new_events w w')))))"
proof (intro conjI impI)
  show "fst (validateSeedPhrase env r c w) = False"
    by (rule validateSeedPhrase_check_fails[OF assms])
next
  assume a: "wordList r \<noteq> [] \<and> combinationCount r = Some n \<and> validAttempts r = 0"
  obtain b where p: "trace (prepareLogFile env r w) = trace w @ [LedgerHeader b]"
    using prepareLogFile_trace by blast
  obtain r1 w1 where l: "loadAttemptedCombinations env r (prepareLogFile env r w) = (r1, w1)"
    by (metis prod.exhaust)
  note lk = loadAttemptedCombinations_keeps[OF l]
  obtain res r2 w2 where e: "enumerationLoop env (totalAttempts r1) r1 w1 = (res, r2, w2)"
    by (metis prod_cases3)
  have "case enumerationLoop env (totalAttempts r1) r1 w1 of
           (res, r', w') \<Rightarrow>
             res = None \<and> validAttempts r' = validAttempts r1
             \<and> foundValidPhrases r' = foundValidPhrases r1
             \<and> totalAttempts r' = max (totalAttempts r1) n
             \<and> (\<exists>evs. trace w' = trace w1 @ evs
                  \<and> (\<forall>i. totalAttempts r1 \<le> i \<and> i < n \<longrightarrow>
                         i \<in> attemptedCombinations r1 \<or> i \<in> set (validated_indices evs)))"
    using a lk(2,3) by (intro enumerationLoop_check_fails[OF assms]) simp_all
  then obtain evs where loop: "res = None" "validAttempts r2 = validAttempts r1"
      "foundValidPhrases r2 = foundValidPhrases r1" "totalAttempts r2 = max (totalAttempts r1) n"
      "trace w2 = trace w1 @ evs"
      "\<forall>i. totalAttempts r1 \<le> i \<and> i < n \<longrightarrow>
           i \<in> attemptedCombinations r1 \<or> i \<in> set (validated_indices evs)"
    unfolding e by auto
  have f: "findValidSeedPhrases env r w = (None, r2, saveCheckpoint env r2 w2)"
    using a loop(1) by (simp add: findValidSeedPhrases_def l e)
  have "trace (saveCheckpoint env r2 w2) = trace w @ (LedgerHeader b # evs)"
    using loop(5) lk(1) p by simp
  from new_events_append[OF this]
  have ne: "new_events w (saveCheckpoint env r2 w2) = LedgerHeader b # evs" .
  show "case findValidSeedPhrases env r w of
               (res, r', w') \<Rightarrow>
                 res = None \<and> validAttempts r' = 0
                 \<and> foundValidPhrases r' = foundValidPhrases r
                 \<and> totalAttempts r' = max (totalAttempts r) n
                 \<and> (\<forall>i. totalAttempts r \<le> i \<and> i < n \<longrightarrow>
                        i \<in> attemptedCombinations
                              (fst (loadAttemptedCombinations env r (prepareLogFile env r w)))
                        \<or> i \<in> set (validated_indices (new_events w w')))"
    unfolding f l using loop(2,3,4,6) lk(4,5,6) a by (simp add: ne)
qed

theorem oracle_failure_tolerated_witness:
  "fst (validateSeedPhrase failing_check_env two_words_recovery [Some ''a''] empty_world) = False
   \<and> (case findValidSeedPhrases failing_check_env two_words_recovery empty_world of
        (res, r', w') \<Rightarrow>
          res = None \<and> validAttempts r' = 0 \<and> foundValidPhrases r' = []
          \<and> totalAttempts r' = 2
          \<and> validated_indices (new_events empty_world w') = [0, 1])"
proof -
  have chk: "\<forall>k m. externalCheck failing_check_env k m = None"
    by (simp add: failing_check_env_def two_words_env_def)
  have run: "validated_indices
               (trace (snd (snd (findValidSeedPhrases failing_check_env two_words_recovery
                                   empty_world)))) = [0, 1]"
    by (simp add: run_defs)
  obtain res r' w' where
    f: "findValidSeedPhrases failing_check_env two_words_recovery empty_world = (res, r', w')"
    by (metis prod_cases3)
  have ev: "validated_indices (new_events empty_world w') = [0, 1]"
    using run unfolding f by (simp add: new_events_def empty_world_def)
  from oracle_failure_tolerated[OF chk, where r = two_words_recovery and w = empty_world
      and n = 2 and c = "[Some ''a'']"]
  show ?thesis unfolding f using ev by (simp add: two_words_recovery_def)
qed

end
